theory Spec2Isabelle
  imports Complex_Main "HOL-Library.Word" "HOL-Library.Char_ord" "HOL-Library.List_Lexorder"
begin

section \<open>Video clip sampling and preprocessing (video\_module.py, dataset.py)\<close>

text \<open>
  Python integers are modelled as \<open>int\<close>. Python floats that the temporal samplers compute
  (\<open>clip_len + clip_len / 2\<close>, the spacing of the uniform windows) are modelled as exact
  rationals; for operands below \<open>2^51\<close> in magnitude the comparisons, \<open>np.ceil\<close> and
  \<open>round\<close> of the source give the same integers on IEEE doubles.
  Every exception of the source is a value of \<open>error\<close>; a loop that may run forever
  returns \<open>None\<close>.
\<close>

datatype error =
  ValueError | AssertionError | ZeroDivisionError | TypeError | IndexError | CvError
  | FileNotFoundError

subsection \<open>Random draws\<close>

text \<open>
  \<open>np.random.randint(high)\<close> raises ValueError unless \<open>0 < high\<close> and otherwise returns
  an integer of \<open>[0, high)\<close>. The state of the generator is the explicit argument
  \<open>rnd\<close>; every value of the range is the draw for some \<open>rnd\<close>.
\<close>

definition randint :: "int \<Rightarrow> nat \<Rightarrow> error + int" where
  "randint high rnd = (if high \<le> 0 then Inl ValueError else Inr (int rnd mod high))"

subsection \<open>Temporal sampler\<close>

definition sample_len_of :: "int \<Rightarrow> rat" where
  "sample_len_of clip_len = of_int clip_len + of_int clip_len / 2"

text \<open>The loop multiplier of \<open>temporal_crop\<close> (its \<open>else\<close> branch).\<close>

definition crop_multiplier :: "int \<Rightarrow> int \<Rightarrow> int" where
  "crop_multiplier buffer_len clip_len =
     (if buffer_len \<noteq> 32 \<and> buffer_len \<noteq> 0
      then \<lceil>sample_len_of clip_len / of_int buffer_len\<rceil>
      else 2)"

definition temporal_crop :: "int \<Rightarrow> int \<Rightarrow> nat \<Rightarrow> error + (int \<times> int)" where
  "temporal_crop buffer_len clip_len rnd =
     (let sample_len = sample_len_of clip_len;
          drawn = (if of_int buffer_len \<ge> sample_len
                   then randint (buffer_len - clip_len) rnd
                   else randint (buffer_len * crop_multiplier buffer_len clip_len - clip_len) rnd)
      in case drawn of
           Inl e \<Rightarrow> Inl e
         | Inr start_index \<Rightarrow> Inr (start_index, start_index + clip_len))"

definition temporal_center_crop :: "int \<Rightarrow> int \<Rightarrow> error + (int \<times> int)" where
  "temporal_center_crop buffer_len clip_len =
     (if buffer_len \<ge> clip_len
      then (let start_index = (buffer_len - clip_len) div 2
            in Inr (start_index, start_index + clip_len))
      else if buffer_len = 0 then Inl ZeroDivisionError
      else (let multiplier = \<lceil>(of_int clip_len :: rat) / of_int buffer_len\<rceil>;
                start_index = (buffer_len * multiplier - clip_len) div 2
            in Inr (start_index, start_index + clip_len)))"

text \<open>
  The doubling loop at the head of \<open>temporal_uniform_crop\<close>:
  \<^verbatim>\<open>while buffer_len < (clip_len + clip_len / 2): buffer_len *= 2\<close>.
  It does not return for \<open>buffer_len \<le> 0 < clip_len\<close>.
\<close>

partial_function (option) double_until :: "int \<Rightarrow> int \<Rightarrow> int option" where
  "double_until buffer_len clip_len =
     (if (of_int buffer_len :: rat) < sample_len_of clip_len
      then double_until (buffer_len * 2) clip_len
      else Some buffer_len)"

declare double_until.simps [code]

text \<open>Python 3 \<open>round\<close> of a float to an integer: to nearest, ties to even.\<close>

definition py_round :: "rat \<Rightarrow> int" where
  "py_round x =
     (let f = \<lfloor>x\<rfloor>; d = x - of_int f
      in if d < 1 / 2 then f
         else if d > 1 / 2 then f + 1
         else if even f then f else f + 1)"

text \<open>The body of \<^verbatim>\<open>for i in range(1, clips_per_video - 1)\<close>.\<close>

definition uniform_step :: "int \<Rightarrow> rat \<Rightarrow> (int \<times> int) list \<Rightarrow> int \<Rightarrow> (int \<times> int) list" where
  "uniform_step clip_len spacing indices i =
     (let start = py_round (of_int (snd (indices ! nat (i - 1))) + spacing);
          end = start + clip_len
      in indices @ [(start, end)])"

definition temporal_uniform_crop ::
  "int \<Rightarrow> int \<Rightarrow> int \<Rightarrow> (error + (int \<times> int) list) option" where
  "temporal_uniform_crop buffer_len0 clip_len clips_per_video =
     (case double_until buffer_len0 clip_len of
        None \<Rightarrow> None
      | Some buffer_len \<Rightarrow>
          Some (if clips_per_video - 1 = 0 then Inl ZeroDivisionError
                else (let spacing = (of_int (buffer_len - clip_len * clips_per_video) :: rat)
                                      / of_int (clips_per_video - 1);
                          indices = foldl (uniform_step clip_len spacing) [(0, clip_len)]
                                      [1 .. clips_per_video - 2]
                      in Inr (indices @ [(buffer_len - clip_len, buffer_len)]))))"

subsection \<open>Spatial sampler\<close>

text \<open>
  Both functions take the two sizes as pairs, so the source's assertion that each has two
  components holds by typing. The two draws of \<open>spatial_crop\<close> are \<open>rnd_h\<close> and \<open>rnd_w\<close>.
\<close>

definition spatial_crop ::
  "int \<times> int \<Rightarrow> int \<times> int \<Rightarrow> nat \<Rightarrow> nat \<Rightarrow> error + ((int \<times> int) \<times> (int \<times> int))" where
  "spatial_crop buffer_size clip_size rnd_h rnd_w =
     (case randint (fst buffer_size - fst clip_size) rnd_h of
        Inl e \<Rightarrow> Inl e
      | Inr start_h \<Rightarrow>
          (case randint (snd buffer_size - snd clip_size) rnd_w of
             Inl e \<Rightarrow> Inl e
           | Inr start_w \<Rightarrow>
               Inr ((start_h, start_h + fst clip_size), (start_w, start_w + snd clip_size))))"

definition spatial_center_crop ::
  "int \<times> int \<Rightarrow> int \<times> int \<Rightarrow> (int \<times> int) \<times> (int \<times> int)" where
  "spatial_center_crop buffer_size clip_size =
     (let start_h = (fst buffer_size - fst clip_size) div 2;
          end_h = start_h + fst clip_size;
          start_w = (snd buffer_size - snd clip_size) div 2;
          end_w = start_w + snd clip_size
      in ((start_h, end_h), (start_w, end_w)))"

subsection \<open>Argument validation of the Sample Provider\<close>

text \<open>
  The assertions of \<open>VideoDataset.__init__\<close> (dataset.py, lines 49 to 60), in the order of
  the source. What follows them in the constructor reads the label mapping file.
\<close>

definition init_validate ::
  "string \<Rightarrow> int \<Rightarrow> string \<Rightarrow> string \<Rightarrow> string \<Rightarrow> int \<Rightarrow> error + unit" where
  "init_validate dataset split mode modality load_mode clips_per_video =
     (if dataset \<notin> set [''ucf'', ''hmdb''] then Inl AssertionError
      else if split \<notin> set [1 .. 3] then Inl AssertionError
      else if mode \<notin> set [''train'', ''test''] then Inl AssertionError
      else if modality \<notin> set [''rgb'', ''flow''] then Inl AssertionError
      else if mode = ''train'' \<and> load_mode \<noteq> ''clip'' then Inl AssertionError
      else if load_mode = ''clip'' then
             (if clips_per_video = 1 then Inr () else Inl AssertionError)
      else (if clips_per_video > 1 then Inr () else Inl AssertionError))"

subsection \<open>Arrays\<close>

text \<open>
  A NumPy array is its shape and its elements by index. Only indices inside the shape are
  meaningful. The float32 assembly buffer holds pixel intensities, which float32 represents
  exactly; its arithmetic is modelled on rationals, and a float that is not finite is
  \<open>PosInf\<close>, \<open>NegInf\<close> or \<open>NaN\<close>.
\<close>

record 'a ndarray =
  shape :: "nat list"
  elem :: "nat list \<Rightarrow> 'a"

definition valid_index :: "nat list \<Rightarrow> nat list \<Rightarrow> bool" where
  "valid_index sh ix = list_all2 (\<lambda>i d. i < d) ix sh"

datatype npfloat = Finite rat | PosInf | NegInf | NaN

text \<open>An operation with a positive constant, which leaves infinities and NaN as they are.\<close>

fun map_finite :: "(rat \<Rightarrow> rat) \<Rightarrow> npfloat \<Rightarrow> npfloat" where
  "map_finite f (Finite x) = Finite (f x)"
| "map_finite f PosInf = PosInf"
| "map_finite f NegInf = NegInf"
| "map_finite f NaN = NaN"

text \<open>NumPy float division: dividing by zero raises nothing and gives NaN or an infinity.\<close>

definition np_divide :: "rat \<Rightarrow> rat \<Rightarrow> npfloat" where
  "np_divide x y =
     (if y = 0 then (if x = 0 then NaN else if x > 0 then PosInf else NegInf)
      else Finite (x / y))"

fun in_unit_range :: "npfloat \<Rightarrow> bool" where
  "in_unit_range (Finite x) = (- 1 \<le> x \<and> x \<le> 1)"
| "in_unit_range PosInf = False"
| "in_unit_range NegInf = False"
| "in_unit_range NaN = False"

subsection \<open>Buffer normalizer\<close>

definition normalize_buffer :: "npfloat ndarray \<Rightarrow> npfloat ndarray" where
  "normalize_buffer buffer =
     \<lparr>shape = shape buffer, elem = (\<lambda>ix. map_finite (\<lambda>x. (x - 128) / 128) (elem buffer ix))\<rparr>"

text \<open>
  \<open>astype(np.uint8)\<close> of a float truncates towards zero. NumPy leaves the cast of a value
  that does not fit undefined: \<open>None\<close>.
\<close>

definition trunc_rat :: "rat \<Rightarrow> int" where
  "trunc_rat x = (if x < 0 then \<lceil>x\<rceil> else \<lfloor>x\<rfloor>)"

fun astype_uint8 :: "npfloat \<Rightarrow> 8 word option" where
  "astype_uint8 (Finite x) =
     (let t = trunc_rat x in if 0 \<le> t \<and> t \<le> 255 then Some (word_of_int t) else None)"
| "astype_uint8 PosInf = None"
| "astype_uint8 NegInf = None"
| "astype_uint8 NaN = None"

definition denormalize_buffer :: "npfloat ndarray \<Rightarrow> (8 word option) ndarray" where
  "denormalize_buffer buffer =
     \<lparr>shape = shape buffer,
      elem = (\<lambda>ix. astype_uint8 (map_finite (\<lambda>x. x * 128 + 128) (elem buffer ix)))\<rparr>"

subsection \<open>Flow normalizer\<close>

text \<open>The positions along the axes 1, 2 and 3 of a buffer of shape \<open>sh\<close>.\<close>

definition axes123 :: "nat list \<Rightarrow> (nat \<times> nat \<times> nat) list" where
  "axes123 sh = concat (map (\<lambda>l. concat (map (\<lambda>h. map (\<lambda>w. (l, h, w)) [0 ..< sh ! 3])
                                              [0 ..< sh ! 2])) [0 ..< sh ! 1])"

text \<open>\<open>buffer -= np.expand_dims(np.sum(buffer, axis = 1) / sh[1], 1)\<close>\<close>

definition mean_centred :: "rat ndarray \<Rightarrow> nat \<Rightarrow> nat \<Rightarrow> nat \<Rightarrow> nat \<Rightarrow> nat \<Rightarrow> rat" where
  "mean_centred buffer c l h w k =
     elem buffer [c, l, h, w, k]
       - (\<Sum>j \<leftarrow> [0 ..< shape buffer ! 1]. elem buffer [c, j, h, w, k]) / of_nat (shape buffer ! 1)"

text \<open>\<open>np.min(buffer, axis = (1, 2, 3))\<close> after the subtraction\<close>

definition centred_min :: "rat ndarray \<Rightarrow> nat \<Rightarrow> nat \<Rightarrow> rat" where
  "centred_min buffer c k =
     Min (set (map (\<lambda>(l, h, w). mean_centred buffer c l h w k) (axes123 (shape buffer))))"

text \<open>\<open>buffer += np.abs(np.min(buffer, axis = (1, 2, 3))).reshape(sh[0], 1, 1, 1, sh[4])\<close>\<close>

definition shifted :: "rat ndarray \<Rightarrow> nat \<Rightarrow> nat \<Rightarrow> nat \<Rightarrow> nat \<Rightarrow> nat \<Rightarrow> rat" where
  "shifted buffer c l h w k = mean_centred buffer c l h w k + \<bar>centred_min buffer c k\<bar>"

text \<open>\<open>np.max(buffer, axis = (1, 2, 3))\<close> after the shift\<close>

definition shifted_max :: "rat ndarray \<Rightarrow> nat \<Rightarrow> nat \<Rightarrow> rat" where
  "shifted_max buffer c k =
     Max (set (map (\<lambda>(l, h, w). shifted buffer c l h w k) (axes123 (shape buffer))))"

text \<open>
  \<open>flow_mean_sub\<close> on a buffer of shape (clip, depth, h, w, channel). A minimum or maximum
  over an axis of length zero raises ValueError.
\<close>

definition flow_mean_sub :: "rat ndarray \<Rightarrow> error + npfloat ndarray" where
  "flow_mean_sub buffer =
     (let sh = shape buffer
      in if sh ! 1 = 0 \<or> sh ! 2 = 0 \<or> sh ! 3 = 0 then Inl ValueError
         else Inr \<lparr>shape = sh,
                   elem = (\<lambda>ix. case ix of
                             [c, l, h, w, k] \<Rightarrow>
                               map_finite (\<lambda>x. x * 255)
                                 (np_divide (shifted buffer c l h w k) (shifted_max buffer c k))
                           | _ \<Rightarrow> NaN)\<rparr>)"

subsection \<open>External collaborators of the Frame Assembler\<close>

text \<open>
  What \<open>load_clips\<close> takes from outside: the directory listing (\<open>glob.glob\<close>), the image
  codec (\<open>cv2.imread\<close> in colour and in grayscale, \<open>None\<close> when a file does not decode;
  the pixels that \<open>cv2.resize\<close> interpolates), the three random draws, and the contents
  of the memory that \<open>np.empty\<close> hands out, which NumPy does not initialise.
\<close>

record env =
  glob_jpg :: "string \<Rightarrow> string list"
  imread_color :: "string \<Rightarrow> (8 word) ndarray option"
  imread_gray :: "string \<Rightarrow> (8 word) ndarray option"
  resize_px :: "(8 word) ndarray \<Rightarrow> nat \<Rightarrow> nat \<Rightarrow> nat list \<Rightarrow> 8 word"
  rnd_t :: nat
  rnd_h :: nat
  rnd_w :: nat
  empty_mem :: "nat list \<Rightarrow> rat"

text \<open>Python list indexing: a negative index counts from the end.\<close>

definition py_index :: "'a list \<Rightarrow> int \<Rightarrow> error + 'a" where
  "py_index xs i =
     (if 0 \<le> i \<and> i < int (length xs) then Inr (xs ! nat i)
      else if i < 0 \<and> - int (length xs) \<le> i then Inr (xs ! nat (int (length xs) + i))
      else Inl IndexError)"

text \<open>\<open>cv2.cvtColor(img, cv2.COLOR_BGR2RGB)\<close>: an empty source is an OpenCV error.\<close>

definition cvtColor_bgr2rgb :: "(8 word) ndarray option \<Rightarrow> error + (8 word) ndarray" where
  "cvtColor_bgr2rgb src =
     (case src of
        None \<Rightarrow> Inl CvError
      | Some img \<Rightarrow>
          Inr \<lparr>shape = shape img,
               elem = (\<lambda>ix. case ix of [r, c, k] \<Rightarrow> elem img [r, c, 2 - k] | _ \<Rightarrow> elem img ix)\<rparr>)"

text \<open>
  \<open>cv2.resize(img, (scale_w, scale_h))\<close>: the result has \<open>scale_h\<close> rows and
  \<open>scale_w\<close> columns and keeps the channel axis, if any; a size that is not positive
  or an empty source is an OpenCV error.
\<close>

definition cv_resize :: "env \<Rightarrow> (8 word) ndarray \<Rightarrow> int \<Rightarrow> int \<Rightarrow> error + (8 word) ndarray" where
  "cv_resize e img scale_w scale_h =
     (if scale_w \<le> 0 \<or> scale_h \<le> 0 \<or> 0 \<in> set (shape img) then Inl CvError
      else Inr \<lparr>shape = nat scale_h # nat scale_w # drop 2 (shape img),
                elem = resize_px e img (nat scale_h) (nat scale_w)\<rparr>)"

text \<open>\<open>img[:, :, np.newaxis]\<close>\<close>

definition add_channel_axis :: "'a ndarray \<Rightarrow> 'a ndarray" where
  "add_channel_axis img = \<lparr>shape = shape img @ [1], elem = (\<lambda>ix. elem img (butlast ix))\<rparr>"

text \<open>
  A slice \<open>start : stop\<close> of an axis of length \<open>n\<close>, as Python clips it: the first
  position and the number of positions.
\<close>

definition slice_bounds :: "int \<Rightarrow> int \<Rightarrow> nat \<Rightarrow> nat \<times> nat" where
  "slice_bounds start stop n =
     (let clip = (\<lambda>i. if i < 0 then max 0 (i + int n) else min i (int n));
          lo = clip start;
          hi = clip stop
      in (nat lo, nat (hi - lo)))"

text \<open>
  \<open>img[s_index[0][0] : s_index[0][1], s_index[1][0] : s_index[1][1], :]\<close>.
  Three subscripts on an array of two axes raise IndexError; a decoded image has two axes
  (grayscale) or three.
\<close>

definition crop_frame ::
  "'a ndarray \<Rightarrow> (int \<times> int) \<times> (int \<times> int) \<Rightarrow> error + 'a ndarray" where
  "crop_frame img s_index =
     (case shape img of
        [rows, cols, ch] \<Rightarrow>
          (let rb = slice_bounds (fst (fst s_index)) (snd (fst s_index)) rows;
               cb = slice_bounds (fst (snd s_index)) (snd (snd s_index)) cols
           in Inr \<lparr>shape = [snd rb, snd cb, ch],
                    elem = (\<lambda>ix. case ix of
                              [r, c, k] \<Rightarrow> elem img [fst rb + r, fst cb + c, k]
                            | _ \<Rightarrow> elem img ix)\<rparr>)
      | _ \<Rightarrow> Inl IndexError)"

text \<open>
  \<open>np.copyto(dst, src)\<close> broadcasts \<open>src\<close> to the shape of \<open>dst\<close> (here both have the
  same number of axes): every axis of \<open>src\<close> has the length of the axis of \<open>dst\<close> or
  length 1; otherwise ValueError.
\<close>

definition broadcastable :: "nat list \<Rightarrow> nat list \<Rightarrow> bool" where
  "broadcastable src dst = list_all2 (\<lambda>s d. s = d \<or> s = 1) src dst"

definition bcast :: "nat list \<Rightarrow> nat list \<Rightarrow> nat list" where
  "bcast sh ix = map2 (\<lambda>s i. if s = 1 then 0 else i) sh ix"

definition pixel_value :: "8 word \<Rightarrow> rat" where
  "pixel_value p = of_nat (unat p)"

text \<open>\<open>np.copyto(buffer[c, t, :, :, :], frame)\<close>\<close>

definition copyto_rgb :: "rat ndarray \<Rightarrow> nat \<Rightarrow> nat \<Rightarrow> (8 word) ndarray \<Rightarrow> error + rat ndarray" where
  "copyto_rgb buffer c t src =
     (if \<not> (c < shape buffer ! 0 \<and> t < shape buffer ! 1) then Inl IndexError
      else if \<not> broadcastable (shape src) (drop 2 (shape buffer)) then Inl ValueError
      else Inr (buffer\<lparr>elem :=
             (\<lambda>ix. case ix of
                [c', t', y, x, k] \<Rightarrow>
                  if c' = c \<and> t' = t \<and> valid_index (drop 2 (shape buffer)) [y, x, k]
                  then pixel_value (elem src (bcast (shape src) [y, x, k]))
                  else elem buffer ix
              | _ \<Rightarrow> elem buffer ix)\<rparr>))"

text \<open>\<open>np.copyto(buffer[c, t, :, :, i], frame[:, :, 0])\<close>\<close>

definition copyto_flow ::
  "rat ndarray \<Rightarrow> nat \<Rightarrow> nat \<Rightarrow> nat \<Rightarrow> (8 word) ndarray \<Rightarrow> error + rat ndarray" where
  "copyto_flow buffer c t i src =
     (if \<not> (c < shape buffer ! 0 \<and> t < shape buffer ! 1 \<and> i < shape buffer ! 4) then Inl IndexError
      else if shape src ! 2 = 0 then Inl IndexError
      else if \<not> broadcastable (take 2 (shape src)) (take 2 (drop 2 (shape buffer)))
      then Inl ValueError
      else Inr (buffer\<lparr>elem :=
             (\<lambda>ix. case ix of
                [c', t', y, x, k] \<Rightarrow>
                  if c' = c \<and> t' = t \<and> k = i
                     \<and> valid_index (take 2 (drop 2 (shape buffer))) [y, x]
                  then pixel_value (elem src (bcast (take 2 (shape src)) [y, x] @ [0]))
                  else elem buffer ix
              | _ \<Rightarrow> elem buffer ix)\<rparr>))"

subsection \<open>Frame Assembler\<close>

text \<open>The locals of \<open>load_clips\<close> that its loops read.\<close>

record ctx =
  cx_modality :: string
  cx_path_content :: "string list list"
  cx_frame_count :: int
  cx_t_index :: "(int \<times> int) list"
  cx_s_index :: "(int \<times> int) \<times> (int \<times> int)"
  cx_scale_h :: int
  cx_scale_w :: int

text \<open>What the loops change: the buffer and the lines printed.\<close>

record asm_state =
  st_buffer :: "rat ndarray"
  st_printed :: "string list"

text \<open>
  \<^verbatim>\<open>ccount = count; while ccount >= frame_count: ccount -= frame_count\<close>.
  It does not return for \<open>frame_count \<le> 0\<close> and \<open>ccount \<ge> frame_count\<close>.
\<close>

partial_function (option) wrap_index :: "int \<Rightarrow> int \<Rightarrow> int option" where
  "wrap_index ccount frame_count =
     (if ccount \<ge> frame_count then wrap_index (ccount - frame_count) frame_count
      else Some ccount)"

declare wrap_index.simps [code]

text \<open>The decodes of one temporal position: one colour frame, or the two flow directions.\<close>

definition read_frames :: "env \<Rightarrow> ctx \<Rightarrow> int \<Rightarrow> error + ((8 word) ndarray option) list" where
  "read_frames e cx ccount =
     (if cx_modality cx = ''rgb'' then
        (case py_index (cx_path_content cx ! 0) ccount of
           Inl err \<Rightarrow> Inl err
         | Inr p \<Rightarrow>
             (case cvtColor_bgr2rgb (imread_color e p) of
                Inl err \<Rightarrow> Inl err
              | Inr img \<Rightarrow> Inr [Some img]))
      else
        (case py_index (cx_path_content cx ! 0) ccount of
           Inl err \<Rightarrow> Inl err
         | Inr p0 \<Rightarrow>
             (case py_index (cx_path_content cx ! 1) ccount of
                Inl err \<Rightarrow> Inl err
              | Inr p1 \<Rightarrow> Inr [imread_gray e p0, imread_gray e p1])))"

text \<open>The branch \<open>buffer_frame[i] is not None\<close>: resize, channel axis, crop, copy.\<close>

definition store_frame ::
  "env \<Rightarrow> ctx \<Rightarrow> nat \<Rightarrow> nat \<Rightarrow> nat \<Rightarrow> (8 word) ndarray \<Rightarrow> rat ndarray \<Rightarrow> error + rat ndarray" where
  "store_frame e cx c t i img buffer =
     (case cv_resize e img (cx_scale_w cx) (cx_scale_h cx) of
        Inl err \<Rightarrow> Inl err
      | Inr resized \<Rightarrow>
          (case crop_frame (if cx_modality cx = ''flow'' then add_channel_axis resized
                            else resized) (cx_s_index cx) of
             Inl err \<Rightarrow> Inl err
           | Inr cropped \<Rightarrow>
               (if cx_modality cx = ''rgb'' then copyto_rgb buffer c t cropped
                else copyto_flow buffer c t i cropped)))"

text \<open>\<^verbatim>\<open>for i in range(len(buffer_frame))\<close>, from position \<open>i\<close> on.\<close>

fun write_frames ::
  "env \<Rightarrow> ctx \<Rightarrow> nat \<Rightarrow> nat \<Rightarrow> int \<Rightarrow> nat \<Rightarrow> ((8 word) ndarray option) list \<Rightarrow> asm_state
     \<Rightarrow> error + asm_state" where
  "write_frames e cx c t ccount i [] st = Inr st"
| "write_frames e cx c t ccount i (None # fs) st =
     (case py_index (cx_path_content cx ! i) ccount of
        Inl err \<Rightarrow> Inl err
      | Inr p \<Rightarrow>
          write_frames e cx c t ccount (Suc i) fs (st\<lparr>st_printed := st_printed st @ [p]\<rparr>))"
| "write_frames e cx c t ccount i (Some img # fs) st =
     (case store_frame e cx c t i img (st_buffer st) of
        Inl err \<Rightarrow> Inl err
      | Inr b \<Rightarrow> write_frames e cx c t ccount (Suc i) fs (st\<lparr>st_buffer := b\<rparr>))"

text \<open>The body of the \<open>while count < t_index[c][1]\<close> loop, for clip \<open>c\<close> starting at \<open>start\<close>.\<close>

definition frame_step ::
  "env \<Rightarrow> ctx \<Rightarrow> nat \<Rightarrow> int \<Rightarrow> int \<Rightarrow> asm_state \<Rightarrow> (error + asm_state) option" where
  "frame_step e cx c start count st =
     (case wrap_index count (cx_frame_count cx) of
        None \<Rightarrow> None
      | Some ccount \<Rightarrow>
          Some (case read_frames e cx ccount of
                  Inl err \<Rightarrow> Inl err
                | Inr buffer_frame \<Rightarrow>
                    write_frames e cx c (nat (count - start)) ccount 0 buffer_frame st))"

function count_loop ::
  "env \<Rightarrow> ctx \<Rightarrow> nat \<Rightarrow> int \<Rightarrow> int \<Rightarrow> int \<Rightarrow> asm_state \<Rightarrow> (error + asm_state) option" where
  "count_loop e cx c start count stop st =
     (if count < stop then
        (case frame_step e cx c start count st of
           None \<Rightarrow> None
         | Some (Inl err) \<Rightarrow> Some (Inl err)
         | Some (Inr st') \<Rightarrow> count_loop e cx c start (count + 1) stop st')
      else Some (Inr st))"
  by pat_completeness auto
termination
  by (relation "measure (\<lambda>(e, cx, c, start, count, stop, st). nat (stop - count))") auto

declare count_loop.simps [simp del]

text \<open>\<^verbatim>\<open>for c in range(clips_per_video)\<close>, over the remaining clip numbers.\<close>

fun clips_loop :: "env \<Rightarrow> ctx \<Rightarrow> nat list \<Rightarrow> asm_state \<Rightarrow> (error + asm_state) option" where
  "clips_loop e cx [] st = Some (Inr st)"
| "clips_loop e cx (c # cs) st =
     (case py_index (cx_t_index cx) (int c) of
        Inl err \<Rightarrow> Some (Inl err)
      | Inr win \<Rightarrow>
          (case count_loop e cx c (fst win) (fst win) (snd win) st of
             None \<Rightarrow> None
           | Some (Inl err) \<Rightarrow> Some (Inl err)
           | Some (Inr st') \<Rightarrow> clips_loop e cx cs st'))"

text \<open>The choice of the temporal windows and of the spatial window, by usage mode.\<close>

definition select_windows ::
  "env \<Rightarrow> string \<Rightarrow> int \<Rightarrow> int \<Rightarrow> int \<Rightarrow> int \<times> int \<Rightarrow> int \<times> int
     \<Rightarrow> (error + ((int \<times> int) list \<times> ((int \<times> int) \<times> (int \<times> int)))) option" where
  "select_windows e mode frame_count output_len clips_per_video scale_size output_size =
     (if mode \<in> set [''train'', ''validation''] then
        (if mode = ''train'' then
           (case temporal_crop frame_count output_len (rnd_t e) of
              Inl err \<Rightarrow> Some (Inl err)
            | Inr tw \<Rightarrow>
                (case spatial_crop scale_size output_size (rnd_h e) (rnd_w e) of
                   Inl err \<Rightarrow> Some (Inl err)
                 | Inr sw \<Rightarrow> Some (Inr ([tw], sw))))
         else
           (case temporal_center_crop frame_count output_len of
              Inl err \<Rightarrow> Some (Inl err)
            | Inr tw \<Rightarrow> Some (Inr ([tw], spatial_center_crop scale_size output_size))))
      else
        (case temporal_uniform_crop frame_count output_len clips_per_video of
           None \<Rightarrow> None
         | Some (Inl err) \<Rightarrow> Some (Inl err)
         | Some (Inr tws) \<Rightarrow> Some (Inr (tws, spatial_center_crop scale_size output_size))))"

text \<open>The sorted listing of the JPEG files of one frame directory.\<close>

definition list_frames :: "env \<Rightarrow> string \<Rightarrow> string list" where
  "list_frames e dir = sort (glob_jpg e (dir @ ''/*.jpg''))"

text \<open>\<open>np.empty(dims, np.float32)\<close>: a negative dimension raises ValueError.\<close>

definition np_empty :: "env \<Rightarrow> int list \<Rightarrow> error + rat ndarray" where
  "np_empty e dims =
     (if \<exists>d \<in> set dims. d < 0 then Inl ValueError
      else Inr \<lparr>shape = map nat dims, elem = empty_mem e\<rparr>)"

text \<open>The clip count and the channel count that \<open>load_clips\<close> derives from its arguments.\<close>

definition clips_per_video_of :: "string \<Rightarrow> int" where
  "clips_per_video_of mode = (if mode \<in> set [''train'', ''validation''] then 1 else 10)"

definition frame_chn_of :: "string \<Rightarrow> int" where
  "frame_chn_of modality = (if modality = ''rgb'' then 3 else 2)"

text \<open>
  \<open>load_clips\<close> up to the end of its loops: the assertions, the listing, the windows,
  the allocation and the loading of the frames.
\<close>

definition assemble ::
  "env \<Rightarrow> string list \<Rightarrow> string \<Rightarrow> int \<Rightarrow> int \<Rightarrow> int \<Rightarrow> int \<Rightarrow> int \<Rightarrow> string
     \<Rightarrow> (error + asm_state) option" where
  "assemble e frames_path modality scale_h scale_w output_h output_w output_len mode =
     (if (if modality = ''rgb'' then length frames_path \<noteq> 1 else length frames_path \<noteq> 2)
      then Some (Inl AssertionError)
      else if mode \<notin> set [''train'', ''validation'', ''test''] then Some (Inl AssertionError)
      else
        (let clips_per_video = clips_per_video_of mode;
             path_content = map (list_frames e) frames_path;
             frame_count = int (length (path_content ! 0));
             frame_chn = frame_chn_of modality
         in case select_windows e mode frame_count output_len clips_per_video
                   (scale_h, scale_w) (output_h, output_w) of
              None \<Rightarrow> None
            | Some (Inl err) \<Rightarrow> Some (Inl err)
            | Some (Inr (t_index, s_index)) \<Rightarrow>
                (case np_empty e [clips_per_video, output_len, output_h, output_w, frame_chn] of
                   Inl err \<Rightarrow> Some (Inl err)
                 | Inr buffer \<Rightarrow>
                     clips_loop e
                       \<lparr>cx_modality = modality, cx_path_content = path_content,
                        cx_frame_count = frame_count, cx_t_index = t_index,
                        cx_s_index = s_index, cx_scale_h = scale_h, cx_scale_w = scale_w\<rparr>
                       [0 ..< nat clips_per_video]
                       \<lparr>st_buffer = buffer, st_printed = []\<rparr>)))"

text \<open>\<open>buffer[0, :, :, :, :]\<close> and \<open>buffer.transpose(axes)\<close>\<close>

definition first_clip :: "'a ndarray \<Rightarrow> 'a ndarray" where
  "first_clip a = \<lparr>shape = tl (shape a), elem = (\<lambda>ix. elem a (0 # ix))\<rparr>"

definition axis_position :: "nat list \<Rightarrow> nat \<Rightarrow> nat" where
  "axis_position axes d = length (takeWhile (\<lambda>a. a \<noteq> d) axes)"

definition transpose_axes :: "nat list \<Rightarrow> 'a ndarray \<Rightarrow> 'a ndarray" where
  "transpose_axes axes a =
     \<lparr>shape = map (\<lambda>j. shape a ! j) axes,
      elem = (\<lambda>ix. elem a (map (\<lambda>d. ix ! axis_position axes d) [0 ..< length axes]))\<rparr>"

definition as_float :: "rat ndarray \<Rightarrow> npfloat ndarray" where
  "as_float a = \<lparr>shape = shape a, elem = (\<lambda>ix. Finite (elem a ix))\<rparr>"

text \<open>The rest of \<open>load_clips\<close>: mean subtraction, normalisation and layout.\<close>

definition finish ::
  "string \<Rightarrow> string \<Rightarrow> bool \<Rightarrow> rat ndarray \<Rightarrow> error + npfloat ndarray" where
  "finish modality mode mean_sub buffer =
     (case (if mean_sub \<and> modality = ''flow'' then flow_mean_sub buffer
            else Inr (as_float buffer)) of
        Inl err \<Rightarrow> Inl err
      | Inr subtracted \<Rightarrow>
          (let normalized = normalize_buffer subtracted
           in Inr (if mode \<in> set [''train'', ''validation'']
                   then transpose_axes [3, 0, 1, 2] (first_clip normalized)
                   else transpose_axes [0, 4, 1, 2, 3] normalized)))"

text \<open>\<open>load_clips\<close> returns the volume; the model returns the printed lines with it.\<close>

definition load_clips ::
  "env \<Rightarrow> string list \<Rightarrow> string \<Rightarrow> int \<Rightarrow> int \<Rightarrow> int \<Rightarrow> int \<Rightarrow> int \<Rightarrow> string \<Rightarrow> bool
     \<Rightarrow> (error + (npfloat ndarray \<times> string list)) option" where
  "load_clips e frames_path modality scale_h scale_w output_h output_w output_len mode mean_sub =
     (case assemble e frames_path modality scale_h scale_w output_h output_w output_len mode of
        None \<Rightarrow> None
      | Some (Inl err) \<Rightarrow> Some (Inl err)
      | Some (Inr st) \<Rightarrow>
          (case finish modality mode mean_sub (st_buffer st) of
             Inl err \<Rightarrow> Some (Inl err)
           | Inr volume \<Rightarrow> Some (Inr (volume, st_printed st))))"

subsection \<open>Sample Provider\<close>

text \<open>The fields of a constructed \<open>VideoDataset\<close>.\<close>

record video_dataset =
  resize_height :: int
  resize_width :: int
  crop_height :: int
  crop_width :: int
  ds_mode :: string
  crop_depth :: int
  load_mode :: string
  ds_clips_per_video :: int
  ds_modality :: string
  clip_names :: "string list list"
  labels :: "int list"

text \<open>
  A Python call binds its positional arguments to the first parameters and every keyword
  argument to the parameter of that name. TypeError: too many positional arguments, a
  keyword that is no parameter, a parameter given twice, or a parameter without default
  (the first \<open>n_required\<close>) left without a value.
\<close>

definition bind_arguments :: "string list \<Rightarrow> nat \<Rightarrow> nat \<Rightarrow> string list \<Rightarrow> error + unit" where
  "bind_arguments params n_required n_positional keywords =
     (if n_positional > length params then Inl TypeError
      else if \<exists>k \<in> set keywords. k \<notin> set params then Inl TypeError
      else if \<exists>k \<in> set keywords. k \<in> set (take n_positional params) then Inl TypeError
      else if \<exists>p \<in> set (take n_required params).
                p \<notin> set (take n_positional params) \<and> p \<notin> set keywords then Inl TypeError
      else Inr ())"

text \<open>The parameters of \<open>load_clips\<close>; only \<open>mean_sub\<close> has a default.\<close>

definition load_clips_params :: "string list" where
  "load_clips_params =
     [''frames_path'', ''modality'', ''scale_h'', ''scale_w'', ''output_h'', ''output_w'',
      ''output_len'', ''mode'', ''mean_sub'']"

text \<open>
  \<open>VideoDataset.__getitem__\<close>: the call passes seven positional arguments and the keywords
  \<open>mode\<close> and \<open>clips_per_video\<close>.
\<close>

definition getitem ::
  "env \<Rightarrow> video_dataset \<Rightarrow> int \<Rightarrow> (error + ((npfloat ndarray \<times> string list) \<times> int)) option" where
  "getitem e ds index =
     (case py_index (clip_names ds) index of
        Inl err \<Rightarrow> Some (Inl err)
      | Inr frames_path \<Rightarrow>
          (case bind_arguments load_clips_params 8 7 [''mode'', ''clips_per_video''] of
             Inl err \<Rightarrow> Some (Inl err)
           | Inr _ \<Rightarrow>
               (case load_clips e frames_path (ds_modality ds) (resize_height ds)
                       (resize_width ds) (crop_height ds) (crop_width ds) (crop_depth ds)
                       (load_mode ds) True of
                  None \<Rightarrow> None
                | Some (Inl err) \<Rightarrow> Some (Inl err)
                | Some (Inr buffer) \<Rightarrow>
                    (case py_index (labels ds) index of
                       Inl err \<Rightarrow> Some (Inl err)
                     | Inr label \<Rightarrow> Some (Inr (buffer, label))))))"

text \<open>\<open>VideoDataset.__len__\<close>\<close>

definition len :: "video_dataset \<Rightarrow> error + nat" where
  "len ds = (if length (clip_names ds) = length (labels ds) then Inr (length (labels ds))
             else Inl AssertionError)"

subsection \<open>Construction of the Sample Provider\<close>

text \<open>
  What \<open>VideoDataset.__init__\<close> takes from outside after its assertions: the text of the
  mapping file (\<open>None\<close> when \<open>open\<close> fails), the conversion of a label to an integer that
  \<open>np.array(labels, dtype = np.int)\<close> performs (\<open>None\<close> when it raises ValueError), and the
  draws of \<open>random.randrange\<close>.
\<close>

record mapping_source =
  read_text :: "string \<Rightarrow> string option"
  to_int :: "string \<Rightarrow> int option"
  draw :: "nat \<Rightarrow> nat"

text \<open>\<open>s.split(sep)\<close> for a separator of one character: at least one field.\<close>

fun split_on :: "char \<Rightarrow> string \<Rightarrow> string list" where
  "split_on sep [] = [[]]"
| "split_on sep (ch # rest) =
     (if ch = sep then [] # split_on sep rest
      else (case split_on sep rest of
              [] \<Rightarrow> [[ch]]
            | w # ws \<Rightarrow> (ch # w) # ws))"

text \<open>
  Joining two path components, as \<open>pathlib\<close> and \<open>os.path.join\<close> do on POSIX: an
  absolute second component replaces the first, and no separator is added to an empty first
  component or after a trailing one. The normalisation that \<open>Path\<close> applies to its
  argument is not modelled.
\<close>

definition path_join :: "string \<Rightarrow> string \<Rightarrow> string" where
  "path_join a b =
     (if b \<noteq> [] \<and> hd b = CHR ''/'' then b
      else if a = [] \<or> last a = CHR ''/'' then a @ b
      else a @ ''/'' @ b)"

definition dataset_name :: "string \<Rightarrow> string" where
  "dataset_name dataset = (if dataset = ''ucf'' then ''UCF-101'' else ''HMDB-51'')"

definition frame_dir_of :: "string \<Rightarrow> string \<Rightarrow> string \<Rightarrow> string" where
  "frame_dir_of path dataset modality =
     (if dataset = ''ucf'' then
        (if modality = ''rgb'' then path_join (path_join path ''ucf101_jpegs_256'') ''jpegs_256''
         else path_join (path_join path ''ucf101_tvl1_flow'') ''tvl1_flow'')
      else
        (if modality = ''rgb'' then path_join (path_join path ''hmdb51_jpegs_256'') ''jpegs_256''
         else path_join (path_join path ''hmdb51_tvl1_flow'') ''tvl1_flow''))"

text \<open>\<open>str(split)\<close>, for the three values of \<open>split\<close> that pass the assertions.\<close>

definition str_of_split :: "int \<Rightarrow> string" where
  "str_of_split split = (if split = 1 then ''1'' else if split = 2 then ''2'' else ''3'')"

definition mapping_file :: "string \<Rightarrow> string \<Rightarrow> int \<Rightarrow> string" where
  "mapping_file dataset mode split =
     path_join (''mapping/'' @ dataset_name dataset)
       (dataset @ ''_'' @ mode @ ''list0'' @ str_of_split split @ ''.txt'')"

text \<open>
  One line of the mapping file: the frame directories of the sample and its label. A line
  without a space has no second field: \<open>buffer_map[1]\<close> raises IndexError.
\<close>

definition parse_line :: "string \<Rightarrow> string \<Rightarrow> string \<Rightarrow> error + (string list \<times> string)" where
  "parse_line frame_dir modality line =
     (let buffer_map = split_on CHR '' '' line;
          name = hd (split_on CHR ''.'' (buffer_map ! 0));
          names = (if modality = ''rgb'' then [path_join frame_dir name]
                   else [path_join (path_join frame_dir ''u'') name,
                         path_join (path_join frame_dir ''v'') name])
      in if length buffer_map < 2 then Inl IndexError else Inr (names, buffer_map ! 1))"

fun parse_lines :: "string \<Rightarrow> string \<Rightarrow> string list \<Rightarrow> error + (string list \<times> string) list" where
  "parse_lines frame_dir modality [] = Inr []"
| "parse_lines frame_dir modality (line # rest) =
     (case parse_line frame_dir modality line of
        Inl err \<Rightarrow> Inl err
      | Inr row \<Rightarrow>
          (case parse_lines frame_dir modality rest of
             Inl err \<Rightarrow> Inl err
           | Inr rows \<Rightarrow> Inr (row # rows)))"

fun convert_labels :: "mapping_source \<Rightarrow> string list \<Rightarrow> error + int list" where
  "convert_labels src [] = Inr []"
| "convert_labels src (l # ls) =
     (case to_int src l of
        None \<Rightarrow> Inl ValueError
      | Some v \<Rightarrow>
          (case convert_labels src ls of
             Inl err \<Rightarrow> Inl err
           | Inr vs \<Rightarrow> Inr (v # vs)))"

text \<open>
  The reduced subset of \<open>test_mode\<close>: \<open>test_amt\<close> indices drawn by
  \<open>random.randrange(0, self.__len__())\<close>, which asserts that names and labels have the same
  length and raises ValueError on an empty range.
\<close>

definition subsample ::
  "mapping_source \<Rightarrow> int \<Rightarrow> string list list \<Rightarrow> int list \<Rightarrow> error + (string list list \<times> int list)" where
  "subsample src test_amt names labs =
     (if 0 < test_amt \<and> length names \<noteq> length labs then Inl AssertionError
      else if 0 < test_amt \<and> length labs = 0 then Inl ValueError
      else (let indices = map (\<lambda>k. draw src k mod length labs) [0 ..< nat test_amt]
            in Inr (map (\<lambda>j. names ! j) indices, map (\<lambda>j. labs ! j) indices)))"

text \<open>
  \<open>VideoDataset.__init__\<close>: the assertions, then the mapping file, the samples and labels,
  and the reduced subset. The load mode is the parameter \<open>lmode\<close>.
\<close>

definition video_dataset_init ::
  "mapping_source \<Rightarrow> string \<Rightarrow> string \<Rightarrow> int \<Rightarrow> string \<Rightarrow> string \<Rightarrow> int \<Rightarrow> bool \<Rightarrow> int \<Rightarrow> string
     \<Rightarrow> int \<Rightarrow> error + video_dataset" where
  "video_dataset_init src path dataset split mode modality clip_len test_mode test_amt lmode cpv =
     (case init_validate dataset split mode modality lmode cpv of
        Inl err \<Rightarrow> Inl err
      | Inr u \<Rightarrow>
          (case read_text src (mapping_file dataset mode split) of
             None \<Rightarrow> Inl FileNotFoundError
           | Some content \<Rightarrow>
               (case parse_lines (frame_dir_of path dataset modality) modality
                       (butlast (split_on (CHR 0x0A) content)) of
                  Inl err \<Rightarrow> Inl err
                | Inr rows \<Rightarrow>
                    (case convert_labels src (map snd rows) of
                       Inl err \<Rightarrow> Inl err
                     | Inr labs \<Rightarrow>
                         (case (if test_mode then subsample src test_amt (map fst rows) labs
                                else Inr (map fst rows, labs)) of
                            Inl err \<Rightarrow> Inl err
                          | Inr chosen \<Rightarrow>
                              Inr \<lparr>resize_height = 128, resize_width = 171, crop_height = 112,
                                   crop_width = 112, ds_mode = mode, crop_depth = clip_len,
                                   load_mode = lmode, ds_clips_per_video = cpv,
                                   ds_modality = modality, clip_names = fst chosen,
                                   labels = snd chosen\<rparr>)))))"

subsection \<open>Preconditions of a call of the Frame Assembler\<close>

text \<open>
  What the codec returns for a file that it decodes: a non-empty array, of three axes with
  three channels in colour and of two axes in grayscale.
\<close>

definition good_image :: "string \<Rightarrow> (8 word) ndarray \<Rightarrow> bool" where
  "good_image modality img =
     (0 \<notin> set (shape img)
      \<and> (if modality = ''rgb'' then length (shape img) = 3 \<and> shape img ! 2 = 3
         else length (shape img) = 2))"

text \<open>
  The listed files decode as \<open>load_clips\<close> needs them: in colour every file decodes; in
  flow the directories have as many files as the first one, and a file may fail to decode.
\<close>

definition decodes_well :: "env \<Rightarrow> string list \<Rightarrow> string \<Rightarrow> bool" where
  "decodes_well e frames_path modality =
     (if modality = ''rgb''
      then list_all (\<lambda>p. case imread_color e p of None \<Rightarrow> False
                                               | Some img \<Rightarrow> good_image modality img)
             (list_frames e (frames_path ! 0))
      else list_all (\<lambda>dir. length (list_frames e dir) = length (list_frames e (frames_path ! 0))
                        \<and> list_all (\<lambda>p. case imread_gray e p of None \<Rightarrow> True
                                                               | Some img \<Rightarrow> good_image modality img)
                             (list_frames e dir))
             frames_path)"

text \<open>
  A call of \<open>load_clips\<close> on which it returns a volume: a known modality and mode, the
  number of directories that the modality asserts, at least one frame, positive sizes, a crop
  that fits the scaled frame (strictly in train mode, where the offsets are drawn; and there
  the clip shorter than 64 when the frame count is 32), and files that decode.
\<close>

definition valid_call ::
  "env \<Rightarrow> string list \<Rightarrow> string \<Rightarrow> int \<Rightarrow> int \<Rightarrow> int \<Rightarrow> int \<Rightarrow> int \<Rightarrow> string \<Rightarrow> bool" where
  "valid_call e frames_path modality scale_h scale_w output_h output_w output_len mode =
     (modality \<in> set [''rgb'', ''flow'']
      \<and> length frames_path = (if modality = ''rgb'' then 1 else 2)
      \<and> mode \<in> set [''train'', ''validation'', ''test'']
      \<and> 1 \<le> length (list_frames e (frames_path ! 0))
      \<and> 1 \<le> output_len \<and> 1 \<le> output_h \<and> 1 \<le> output_w
      \<and> (if mode = ''train''
         then output_h < scale_h \<and> output_w < scale_w
              \<and> (length (list_frames e (frames_path ! 0)) = 32 \<longrightarrow> output_len < 64)
         else output_h \<le> scale_h \<and> output_w \<le> scale_w)
      \<and> decodes_well e frames_path modality)"

text \<open>The same conditions on the locals that the loops of \<open>load_clips\<close> read.\<close>

definition context_ok :: "env \<Rightarrow> ctx \<Rightarrow> int \<Rightarrow> int \<Rightarrow> bool" where
  "context_ok e cx output_h output_w =
     (cx_modality cx \<in> set [''rgb'', ''flow'']
      \<and> length (cx_path_content cx) = (if cx_modality cx = ''rgb'' then 1 else 2)
      \<and> 1 \<le> cx_frame_count cx
      \<and> (\<forall>l \<in> set (cx_path_content cx). int (length l) = cx_frame_count cx)
      \<and> (if cx_modality cx = ''rgb''
         then \<forall>p \<in> set (cx_path_content cx ! 0).
                \<exists>img. imread_color e p = Some img \<and> good_image (cx_modality cx) img
         else \<forall>l \<in> set (cx_path_content cx). \<forall>p \<in> set l. \<forall>img.
                imread_gray e p = Some img \<longrightarrow> good_image (cx_modality cx) img)
      \<and> 0 \<le> output_h \<and> 0 \<le> output_w
      \<and> 0 \<le> fst (fst (cx_s_index cx)) \<and> snd (fst (cx_s_index cx)) = fst (fst (cx_s_index cx)) + output_h
      \<and> snd (fst (cx_s_index cx)) \<le> cx_scale_h cx
      \<and> 0 \<le> fst (snd (cx_s_index cx)) \<and> snd (snd (cx_s_index cx)) = fst (snd (cx_s_index cx)) + output_w
      \<and> snd (snd (cx_s_index cx)) \<le> cx_scale_w cx
      \<and> 0 < cx_scale_h cx \<and> 0 < cx_scale_w cx)"

text \<open>The shape of the volume that \<open>load_clips\<close> returns, by modality and mode.\<close>

definition canonical_shape :: "string \<Rightarrow> string \<Rightarrow> int \<Rightarrow> int \<Rightarrow> int \<Rightarrow> nat list" where
  "canonical_shape modality mode output_len output_h output_w =
     (if mode \<in> set [''train'', ''validation'']
      then [if modality = ''rgb'' then 3 else 2, nat output_len, nat output_h, nat output_w]
      else [10, if modality = ''rgb'' then 3 else 2, nat output_len, nat output_h, nat output_w])"

subsection \<open>Example inputs\<close>

text \<open>
  Frame directories: \<open>frames\<close> (five files), \<open>u\<close> and \<open>v\<close> (one file each), \<open>uu\<close> (two
  files) and \<open>bad\<close> (one file). Every decode gives a 2 x 2 image of intensity 100, except
  the colour decode of \<open>bad/1.jpg\<close> and the grayscale decode of \<open>v/1.jpg\<close>, which fail.
  Resizing repeats the first pixel, and allocated memory holds 7.
\<close>

definition demo_env :: env where
  "demo_env =
     \<lparr>glob_jpg = (\<lambda>pattern.
          if pattern = ''frames/*.jpg''
          then [''frames/3.jpg'', ''frames/1.jpg'', ''frames/5.jpg'', ''frames/2.jpg'', ''frames/4.jpg'']
          else if pattern = ''u/*.jpg'' then [''u/1.jpg'']
          else if pattern = ''uu/*.jpg'' then [''uu/2.jpg'', ''uu/1.jpg'']
          else if pattern = ''v/*.jpg'' then [''v/1.jpg'']
          else if pattern = ''bad/*.jpg'' then [''bad/1.jpg'']
          else []),
      imread_color = (\<lambda>path. if path = ''bad/1.jpg'' then None
                              else Some \<lparr>shape = [2, 2, 3], elem = (\<lambda>ix. 100)\<rparr>),
      imread_gray = (\<lambda>path. if path = ''v/1.jpg'' then None
                             else Some \<lparr>shape = [2, 2], elem = (\<lambda>ix. 100)\<rparr>),
      resize_px = (\<lambda>img h w ix. elem img (map (\<lambda>i. 0) ix)),
      rnd_t = 5, rnd_h = 3, rnd_w = 4,
      empty_mem = (\<lambda>ix. 7)\<rparr>"

text \<open>A mapping file of one line for the test list of split 1 of \<open>ucf\<close>.\<close>

definition demo_source :: mapping_source where
  "demo_source =
     \<lparr>read_text = (\<lambda>p. if p = ''mapping/UCF-101/ucf_testlist01.txt''
                         then Some (''v_Foo_g01_c01.avi 7'' @ [CHR 0x0A]) else None),
      to_int = (\<lambda>s. if s = ''7'' then Some 7 else None),
      draw = (\<lambda>k. 0)\<rparr>"

section \<open>Properties\<close>

subsection \<open>Temporal and spatial samplers\<close>

lemma sample_len_lt_iff: "((of_int b :: rat) < sample_len_of c) = (2 * b < 3 * c)"
proof -
  have "((of_int b :: rat) < sample_len_of c) = ((of_int (2 * b) :: rat) < of_int (3 * c))"
    by (simp add: sample_len_of_def field_simps)
  then show ?thesis by (simp only: of_int_less_iff)
qed

lemma double_until_terminates:
  "1 \<le> b \<Longrightarrow> \<exists>k. double_until b c = Some (b * 2 ^ k) \<and> \<not> (2 * (b * 2 ^ k) < 3 * c)"
proof (induction "nat (3 * c - 2 * b)" arbitrary: b rule: less_induct)
  case less
  show ?case
  proof (cases "2 * b < 3 * c")
    case True
    have "nat (3 * c - 2 * (b * 2)) < nat (3 * c - 2 * b)" using True less.prems by simp
    moreover have "1 \<le> b * 2" using less.prems by simp
    ultimately obtain k where k: "double_until (b * 2) c = Some (b * 2 * 2 ^ k)"
        "\<not> (2 * (b * 2 * 2 ^ k) < 3 * c)"
      using less.hyps[of "b * 2"] by blast
    have "double_until b c = double_until (b * 2) c"
      using True by (subst double_until.simps) (simp add: sample_len_lt_iff)
    then have "double_until b c = Some (b * 2 ^ Suc k)" using k(1) by (simp add: mult.assoc)
    moreover have "\<not> (2 * (b * 2 ^ Suc k) < 3 * c)" using k(2) by (simp add: mult.assoc)
    ultimately show ?thesis by blast
  next
    case False
    then have "double_until b c = Some (b * 2 ^ 0)"
      by (subst double_until.simps) (simp add: sample_len_lt_iff)
    then show ?thesis using False by (metis mult.right_neutral power_0)
  qed
qed

lemma uniform_fold_length:
  "length (foldl (uniform_step cl sp) acc is) = length acc + length is"
  by (induction "is" arbitrary: acc) (simp_all add: uniform_step_def Let_def)

lemma uniform_fold_width:
  "\<forall>w \<in> set acc. snd w - fst w = cl \<Longrightarrow>
   \<forall>w \<in> set (foldl (uniform_step cl sp) acc is). snd w - fst w = cl"
proof (induction "is" arbitrary: acc)
  case Nil
  then show ?case by simp
next
  case (Cons i "is")
  have "\<forall>w \<in> set (uniform_step cl sp acc i). snd w - fst w = cl"
    using Cons.prems by (simp add: uniform_step_def Let_def)
  then show ?case using Cons.IH by simp
qed

lemma uniform_fold_hd:
  "acc \<noteq> [] \<Longrightarrow> hd (foldl (uniform_step cl sp) acc is) = hd acc"
  by (induction "is" arbitrary: acc) (simp_all add: uniform_step_def Let_def)

text \<open>
  C10: for every input with \<open>frame_count \<ge> 1\<close>, \<open>temporal_uniform_crop\<close> terminates:
  each iteration of the doubling loop strictly increases the frame count (it stays at
  least \<open>frame_count\<close>, hence positive), the loop exits after finitely many doublings
  \<open>k\<close>, and the function ends, with the windows or with an exception.
\<close>

theorem temporal_uniform_crop_terminates:
  assumes "1 \<le> frame_count"
  shows "(\<forall>b. frame_count \<le> b \<longrightarrow> b < b * 2)
         \<and> (\<exists>k. double_until frame_count clip_len = Some (frame_count * 2 ^ k))
         \<and> (\<exists>r. temporal_uniform_crop frame_count clip_len n = Some r)"
proof -
  obtain k where k: "double_until frame_count clip_len = Some (frame_count * 2 ^ k)"
    using double_until_terminates[OF assms] by blast
  have "\<forall>b. frame_count \<le> b \<longrightarrow> b < b * 2" using assms by auto
  moreover have "\<exists>r. temporal_uniform_crop frame_count clip_len n = Some r"
    by (simp add: temporal_uniform_crop_def k)
  ultimately show ?thesis using k by blast
qed

theorem temporal_uniform_crop_terminates_witness:
  "(1::int) \<le> 5 \<and> (\<exists>r. temporal_uniform_crop 5 16 10 = Some r)"
  using temporal_uniform_crop_terminates[of 5 16 10] by simp

text \<open>
  C3, as stated, fails for \<open>n = 1\<close>: the spacing divides by \<open>n - 1\<close>, and the call raises
  ZeroDivisionError instead of returning one window.
\<close>

theorem uniform_windows_single_clip_fails:
  "temporal_uniform_crop 20 16 1 = Some (Inl ZeroDivisionError)"
  by code_simp

text \<open>
  C3, amended: for every \<open>frame_count \<ge> 1\<close>, \<open>clip_len \<ge> 1\<close> and \<open>n \<ge> 2\<close>,
  \<open>temporal_uniform_crop\<close> returns exactly \<open>n\<close> windows, each of width \<open>clip_len\<close>, the
  first \<open>(0, clip_len)\<close> and the last ending at the doubled frame count \<open>b\<close>.
\<close>

theorem uniform_windows_cover:
  assumes "1 \<le> frame_count" and "1 \<le> clip_len" and "2 \<le> n"
  shows "\<exists>b ws. double_until frame_count clip_len = Some b
           \<and> temporal_uniform_crop frame_count clip_len n = Some (Inr ws)
           \<and> length ws = nat n
           \<and> (\<forall>w \<in> set ws. snd w - fst w = clip_len)
           \<and> hd ws = (0, clip_len)
           \<and> last ws = (b - clip_len, b)"
proof -
  obtain k where k: "double_until frame_count clip_len = Some (frame_count * 2 ^ k)"
    using double_until_terminates[OF assms(1)] by blast
  define b where "b = frame_count * 2 ^ k"
  define sp where "sp = (of_int (b - clip_len * n) :: rat) / of_int (n - 1)"
  define mid where "mid = foldl (uniform_step clip_len sp) [(0, clip_len)] [1 .. n - 2]"
  define ws where "ws = mid @ [(b - clip_len, b)]"
  have res: "temporal_uniform_crop frame_count clip_len n = Some (Inr ws)"
    using assms(3) by (simp add: temporal_uniform_crop_def k ws_def mid_def sp_def b_def Let_def)
  have len: "length ws = nat n"
    using assms(3) by (simp add: ws_def mid_def uniform_fold_length)
  have "\<forall>w \<in> set mid. snd w - fst w = clip_len"
    unfolding mid_def by (rule uniform_fold_width) simp
  then have width: "\<forall>w \<in> set ws. snd w - fst w = clip_len" by (simp add: ws_def)
  have "length mid = 1 + length [1 .. n - 2]"
    unfolding mid_def by (simp add: uniform_fold_length)
  then have "mid \<noteq> []" by auto
  moreover have "hd mid = (0, clip_len)" unfolding mid_def by (simp add: uniform_fold_hd)
  ultimately have h: "hd ws = (0, clip_len)" by (simp add: ws_def)
  have l: "last ws = (b - clip_len, b)" by (simp add: ws_def)
  show ?thesis using k res len width h l unfolding b_def by blast
qed

theorem uniform_windows_cover_witness:
  "(1::int) \<le> 5 \<and> (1::int) \<le> 16 \<and> (2::int) \<le> 10
   \<and> (\<exists>b ws. double_until 5 16 = Some b \<and> temporal_uniform_crop 5 16 10 = Some (Inr ws)
          \<and> length ws = nat 10 \<and> last ws = (b - 16, b))"
  using uniform_windows_cover[of 5 16 10] by auto

lemma randint_range:
  "0 < high \<Longrightarrow> \<exists>s. randint high rnd = Inr s \<and> 0 \<le> s \<and> s < high"
  by (simp add: randint_def)

text \<open>
  C4, as stated, fails: with \<open>frame_count = 32\<close> and \<open>clip_len = 64\<close> the multiplier is
  fixed at 2 and \<open>temporal_crop\<close> draws from an empty range; with \<open>crop_h = scale_h\<close>
  \<open>spatial_crop\<close> draws from an empty range. Both raise ValueError.
\<close>

theorem random_windows_failures:
  "temporal_crop 32 64 0 = Inl ValueError
   \<and> spatial_crop (112, 171) (112, 112) 0 0 = Inl ValueError"
  by (simp add: temporal_crop_def sample_len_of_def crop_multiplier_def randint_def spatial_crop_def)

text \<open>
  C4, amended: when \<open>frame_count \<ge> 1\<close>, and \<open>clip_len < 64\<close> in case
  \<open>frame_count = 32\<close>, \<open>temporal_crop\<close> returns a window of width \<open>clip_len\<close> with
  \<open>start \<ge> 0\<close> that ends within the looped source length; when \<open>crop_h < scale_h\<close> and
  \<open>crop_w < scale_w\<close>, \<open>spatial_crop\<close> returns a window of the crop size inside the
  scaled size. Both hold for every outcome of the random draws.
\<close>

theorem random_windows_within_bounds:
  assumes "1 \<le> frame_count" and "frame_count = 32 \<longrightarrow> clip_len < 64"
    and "crop_h < scale_h" and "crop_w < scale_w"
  shows "(\<exists>s. temporal_crop frame_count clip_len rnd = Inr (s, s + clip_len) \<and> 0 \<le> s
            \<and> s + clip_len \<le> (if of_int frame_count \<ge> sample_len_of clip_len then frame_count
                                else frame_count * crop_multiplier frame_count clip_len))
         \<and> (\<exists>sh sw. spatial_crop (scale_h, scale_w) (crop_h, crop_w) rh rw
                       = Inr ((sh, sh + crop_h), (sw, sw + crop_w))
               \<and> 0 \<le> sh \<and> sh + crop_h \<le> scale_h \<and> 0 \<le> sw \<and> sw + crop_w \<le> scale_w)"
proof -
  define looped where "looped = (if of_int frame_count \<ge> sample_len_of clip_len then frame_count
                                else frame_count * crop_multiplier frame_count clip_len)"
  have pos: "0 < looped - clip_len"
  proof (cases "of_int frame_count \<ge> sample_len_of clip_len")
    case True
    then have "3 * clip_len \<le> 2 * frame_count" using sample_len_lt_iff[of frame_count clip_len] by simp
    then show ?thesis using True assms(1) by (simp add: looped_def)
  next
    case False
    then have lt: "2 * frame_count < 3 * clip_len" using sample_len_lt_iff[of frame_count clip_len] by simp
    show ?thesis
    proof (cases "frame_count = 32")
      case True
      then show ?thesis using False assms(2) by (simp add: looped_def crop_multiplier_def)
    next
      case ne: False
      define m where "m = \<lceil>sample_len_of clip_len / of_int frame_count\<rceil>"
      have fpos: "(0::rat) < of_int frame_count" using assms(1) by simp
      have "sample_len_of clip_len / of_int frame_count \<le> of_int m" unfolding m_def by (rule le_of_int_ceiling)
      then have "sample_len_of clip_len \<le> of_int m * of_int frame_count"
        using fpos by (simp add: pos_divide_le_eq)
      then have "(of_int (3 * clip_len) :: rat) \<le> of_int (2 * (m * frame_count))"
        by (simp add: sample_len_of_def field_simps)
      then have "3 * clip_len \<le> 2 * (m * frame_count)" by (simp only: of_int_le_iff)
      then have "0 < frame_count * m - clip_len" using lt assms(1) by (simp add: mult.commute)
      then show ?thesis using False ne assms(1) by (simp add: looped_def crop_multiplier_def m_def)
    qed
  qed
  obtain s where s: "randint (looped - clip_len) rnd = Inr s" "0 \<le> s" "s < looped - clip_len"
    using randint_range[OF pos] by blast
  have "temporal_crop frame_count clip_len rnd = Inr (s, s + clip_len)"
    using s(1) by (auto simp add: temporal_crop_def looped_def Let_def split: if_splits)
  then have t: "\<exists>s. temporal_crop frame_count clip_len rnd = Inr (s, s + clip_len) \<and> 0 \<le> s
            \<and> s + clip_len \<le> looped" using s by auto
  obtain sh where sh: "randint (scale_h - crop_h) rh = Inr sh" "0 \<le> sh" "sh < scale_h - crop_h"
    using randint_range[of "scale_h - crop_h" rh] assms(3) by auto
  obtain sw where sw: "randint (scale_w - crop_w) rw = Inr sw" "0 \<le> sw" "sw < scale_w - crop_w"
    using randint_range[of "scale_w - crop_w" rw] assms(4) by auto
  have "spatial_crop (scale_h, scale_w) (crop_h, crop_w) rh rw
                       = Inr ((sh, sh + crop_h), (sw, sw + crop_w))"
    using sh(1) sw(1) by (simp add: spatial_crop_def)
  then have sp: "\<exists>sh sw. spatial_crop (scale_h, scale_w) (crop_h, crop_w) rh rw
                       = Inr ((sh, sh + crop_h), (sw, sw + crop_w))
               \<and> 0 \<le> sh \<and> sh + crop_h \<le> scale_h \<and> 0 \<le> sw \<and> sw + crop_w \<le> scale_w"
    using sh sw by auto
  show ?thesis using t sp unfolding looped_def by blast
qed

theorem random_windows_within_bounds_witness:
  "(1::int) \<le> 5 \<and> (5::int) \<noteq> 32 \<and> (112::int) < 128 \<and> (112::int) < 171
   \<and> (\<exists>s. temporal_crop 5 16 7 = Inr (s, s + 16) \<and> 0 \<le> s)
   \<and> (\<exists>sh sw. spatial_crop (128, 171) (112, 112) 3 4 = Inr ((sh, sh + 112), (sw, sw + 112))
         \<and> sh + 112 \<le> 128 \<and> sw + 112 \<le> 171)"
  using random_windows_within_bounds[of 5 16 112 128 112 171 7 3 4] by auto

subsection \<open>Normalizers\<close>

lemma trunc_rat_of_int: "trunc_rat (of_int v) = v"
  by (simp add: trunc_rat_def)

lemma roundtrip_value:
  assumes "0 \<le> v" and "v \<le> 255"
  shows "astype_uint8 (map_finite (\<lambda>x. x * 128 + 128) (map_finite (\<lambda>x. (x - 128) / 128) (Finite (of_int v))))
           = Some (word_of_int v)"
proof -
  have "((of_int v :: rat) - 128) / 128 * 128 + 128 = of_int v" by (simp add: field_simps)
  then show ?thesis using assms by (simp add: trunc_rat_of_int)
qed

text \<open>
  C6: for a buffer element that holds an 8-bit intensity \<open>v\<close> of \<open>[0, 255]\<close>,
  \<open>denormalize_buffer (normalize_buffer buffer)\<close> holds, at the same index of a buffer of
  the same shape, a defined value within 1 of \<open>v\<close> (it is \<open>v\<close> itself, at the extremes
  too).
\<close>

theorem normalize_denormalize_roundtrip:
  assumes "elem buffer ix = Finite (of_int v)" and "0 \<le> v" and "v \<le> 255"
  shows "shape (denormalize_buffer (normalize_buffer buffer)) = shape buffer
         \<and> (\<exists>w. elem (denormalize_buffer (normalize_buffer buffer)) ix = Some w
                \<and> \<bar>uint w - v\<bar> \<le> 1 \<and> uint w = v)"
proof -
  have "elem (denormalize_buffer (normalize_buffer buffer)) ix = Some (word_of_int v)"
    using roundtrip_value[OF assms(2,3)] assms(1)
    by (simp add: denormalize_buffer_def normalize_buffer_def)
  moreover have "uint (word_of_int v :: 8 word) = v"
    using assms(2,3) by (simp add: uint_word_of_int)
  ultimately show ?thesis by (simp add: denormalize_buffer_def normalize_buffer_def)
qed

theorem normalize_denormalize_roundtrip_witness:
  "elem \<lparr>shape = [1], elem = (\<lambda>ix. Finite (of_int 200))\<rparr> [0] = Finite (of_int 200)
   \<and> (0::int) \<le> 200 \<and> (200::int) \<le> 255
   \<and> (\<exists>w. elem (denormalize_buffer (normalize_buffer \<lparr>shape = [1], elem = (\<lambda>ix. Finite (of_int 200))\<rparr>)) [0]
             = Some w \<and> uint w = 200)"
  using normalize_denormalize_roundtrip[of "\<lparr>shape = [1], elem = (\<lambda>ix. Finite (of_int 200))\<rparr>" "[0]" 200]
  by auto

lemma axes123_mem:
  "((l, h, w) \<in> set (axes123 sh)) = (l < sh ! 1 \<and> h < sh ! 2 \<and> w < sh ! 3)"
  by (auto simp add: axes123_def image_iff)

lemma centred_min_le:
  assumes "l < shape b ! 1" "h < shape b ! 2" "w < shape b ! 3"
  shows "centred_min b c k \<le> mean_centred b c l h w k"
proof -
  have "mean_centred b c l h w k \<in> set (map (\<lambda>(l, h, w). mean_centred b c l h w k) (axes123 (shape b)))"
    using assms axes123_mem[of l h w "shape b"] by force
  then show ?thesis unfolding centred_min_def by (intro Min_le) auto
qed

lemma shifted_nonneg:
  assumes "l < shape b ! 1" "h < shape b ! 2" "w < shape b ! 3"
  shows "0 \<le> shifted b c l h w k"
  using centred_min_le[OF assms, of c k] by (simp add: shifted_def)

lemma shifted_le_max:
  assumes "l < shape b ! 1" "h < shape b ! 2" "w < shape b ! 3"
  shows "shifted b c l h w k \<le> shifted_max b c k"
proof -
  have "shifted b c l h w k \<in> set (map (\<lambda>(l, h, w). shifted b c l h w k) (axes123 (shape b)))"
    using assms axes123_mem[of l h w "shape b"] by force
  then show ?thesis unfolding shifted_max_def by (intro Max_ge) auto
qed

lemma shifted_max_pos:
  assumes "l1 < shape b ! 1" "l2 < shape b ! 1" "h < shape b ! 2" "w < shape b ! 3"
    and "elem b [c, l1, h, w, k] \<noteq> elem b [c, l2, h, w, k]"
  shows "0 < shifted_max b c k"
proof -
  have ne: "mean_centred b c l1 h w k \<noteq> mean_centred b c l2 h w k"
    using assms(5) by (simp add: mean_centred_def)
  have m1: "centred_min b c k \<le> mean_centred b c l1 h w k" using centred_min_le assms by blast
  have m2: "centred_min b c k \<le> mean_centred b c l2 h w k" using centred_min_le assms by blast
  have "0 < shifted b c l1 h w k \<or> 0 < shifted b c l2 h w k"
    using ne m1 m2 by (auto simp add: shifted_def abs_if split: if_splits)
  moreover have "shifted b c l1 h w k \<le> shifted_max b c k" using shifted_le_max assms by blast
  moreover have "shifted b c l2 h w k \<le> shifted_max b c k" using shifted_le_max assms by blast
  ultimately show ?thesis by linarith
qed

text \<open>
  C7, as stated, fails on a flow buffer that does not change over time: the mean-centred
  values are all zero, so is the maximum, and the rescaling divides zero by zero. The
  elements are NaN, before and after \<open>normalize_buffer\<close>.
\<close>

theorem flow_mean_sub_constant_gives_nan:
  "(case flow_mean_sub \<lparr>shape = [1, 2, 1, 1, 2], elem = (\<lambda>ix. 5)\<rparr> of
      Inl err \<Rightarrow> False
    | Inr r \<Rightarrow> elem (normalize_buffer r) [0, 0, 0, 0, 0] = NaN
               \<and> \<not> in_unit_range (elem (normalize_buffer r) [0, 0, 0, 0, 0]))"
  by (simp add: flow_mean_sub_def normalize_buffer_def shifted_def shifted_max_def centred_min_def
        mean_centred_def axes123_def np_divide_def upt_conv_Cons)

text \<open>
  C7, amended: for every flow buffer of shape (clip, depth, h, w, channel) and every element
  of it, if some pixel location of the element's clip and channel takes two different
  values over the temporal axis, then \<open>flow_mean_sub\<close> succeeds and the element lies within
  \<open>[-1, 1]\<close> after \<open>normalize_buffer\<close>.
\<close>

theorem flow_mean_sub_normalized_in_range:
  assumes "shape buffer = [n, L, H, W, C]"
    and "c < n" and "l < L" and "h < H" and "w < W" and "k < C"
    and "l1 < L" and "l2 < L" and "h' < H" and "w' < W"
    and "elem buffer [c, l1, h', w', k] \<noteq> elem buffer [c, l2, h', w', k]"
  shows "\<exists>r. flow_mean_sub buffer = Inr r \<and> shape r = shape buffer
            \<and> in_unit_range (elem (normalize_buffer r) [c, l, h, w, k])"
proof -
  have pos: "0 < shifted_max buffer c k"
    using shifted_max_pos[of l1 buffer l2 h' w' c k] assms by simp
  have lo: "0 \<le> shifted buffer c l h w k"
    using shifted_nonneg[of l buffer h w c k] assms by simp
  have hi: "shifted buffer c l h w k \<le> shifted_max buffer c k"
    using shifted_le_max[of l buffer h w c k] assms by simp
  define q where "q = shifted buffer c l h w k / shifted_max buffer c k"
  have q: "0 \<le> q" "q \<le> 1" using pos lo hi by (simp_all add: q_def)
  have "- 1 \<le> (q * 255 - 128) / 128 \<and> (q * 255 - 128) / 128 \<le> 1"
    using q by simp
  moreover obtain r where r: "flow_mean_sub buffer = Inr r" "shape r = shape buffer"
     "elem r [c, l, h, w, k] = Finite (q * 255)"
    using assms(1,3,4,5) pos by (simp add: flow_mean_sub_def Let_def np_divide_def q_def)
  ultimately show ?thesis by (simp add: normalize_buffer_def)
qed

theorem flow_mean_sub_normalized_in_range_witness:
  "(\<exists>r. flow_mean_sub \<lparr>shape = [1, 2, 1, 1, 1], elem = (\<lambda>ix. of_nat (ix ! 1))\<rparr> = Inr r
       \<and> in_unit_range (elem (normalize_buffer r) [0, 1, 0, 0, 0]))"
  using flow_mean_sub_normalized_in_range[of "\<lparr>shape = [1, 2, 1, 1, 1], elem = (\<lambda>ix. of_nat (ix ! 1))\<rparr>"
          1 2 1 1 1 0 1 0 0 0 0 1 0 0]
  by auto

subsection \<open>Sample Provider\<close>

text \<open>
  For every provider and every index, \<open>__getitem__\<close> raises: IndexError for an index out
  of range, TypeError otherwise.
\<close>

lemma getitem_never_returns:
  "getitem e ds index =
     (case py_index (clip_names ds) index of Inl err \<Rightarrow> Some (Inl err) | Inr _ \<Rightarrow> Some (Inl TypeError))"
  by (simp add: getitem_def bind_arguments_def load_clips_params_def split: sum.splits)

text \<open>
  C1: the claim says that \<open>get(index)\<close> returns a (Clip Volume, Label) pair for every
  valid index. The call in \<open>__getitem__\<close> passes the keyword \<open>clips_per_video\<close>, which
  \<open>load_clips\<close> does not take: for a provider of one sample, \<open>get(0)\<close> raises TypeError.
\<close>

theorem getitem_raises_type_error:
  "getitem e
     \<lparr>resize_height = 128, resize_width = 171, crop_height = 112, crop_width = 112,
      ds_mode = ''test'', crop_depth = 16, load_mode = ''clip'', ds_clips_per_video = 1,
      ds_modality = ''rgb'', clip_names = [[''jpegs_256/v_Foo_g01_c01'']], labels = [7]\<rparr> 0
   = Some (Inl TypeError)"
  by (simp add: getitem_def bind_arguments_def load_clips_params_def py_index_def)

subsection \<open>Frame Assembler\<close>

lemma copyto_rgb_shape: "copyto_rgb b c t src = Inr b' \<Longrightarrow> shape b' = shape b"
  by (auto simp add: copyto_rgb_def split: if_splits)

lemma copyto_flow_shape: "copyto_flow b c t i src = Inr b' \<Longrightarrow> shape b' = shape b"
  by (auto simp add: copyto_flow_def split: if_splits)

lemma store_frame_shape: "store_frame e cx c t i img b = Inr b' \<Longrightarrow> shape b' = shape b"
  by (auto simp add: store_frame_def copyto_rgb_shape copyto_flow_shape split: sum.splits if_splits)

lemma write_frames_shape:
  "write_frames e cx c t ccount i fs st = Inr st' \<Longrightarrow> shape (st_buffer st') = shape (st_buffer st)"
proof (induction e cx c t ccount i fs st rule: write_frames.induct)
  case (1 e cx c t ccount i st)
  then show ?case by simp
next
  case (2 e cx c t ccount i fs st)
  then show ?case by (auto split: sum.splits)
next
  case (3 e cx c t ccount i img fs st)
  then show ?case by (auto split: sum.splits dest: store_frame_shape)
qed

lemma frame_step_shape:
  "frame_step e cx c start count st = Some (Inr st') \<Longrightarrow> shape (st_buffer st') = shape (st_buffer st)"
  by (auto simp add: frame_step_def split: option.splits sum.splits dest: write_frames_shape)

lemma count_loop_shape:
  "count_loop e cx c start count stop st = Some (Inr st') \<Longrightarrow> shape (st_buffer st') = shape (st_buffer st)"
proof (induction e cx c start count stop st rule: count_loop.induct)
  case (1 e cx c start count stop st)
  show ?case
  proof (cases "count < stop")
    case True
    then obtain st1 where s1: "frame_step e cx c start count st = Some (Inr st1)"
      and rest: "count_loop e cx c start (count + 1) stop st1 = Some (Inr st')"
      using "1.prems" by (subst (asm) count_loop.simps) (auto split: option.splits sum.splits)
    have "shape (st_buffer st') = shape (st_buffer st1)"
      using "1.IH"[OF True s1 _ rest] by simp
    then show ?thesis using frame_step_shape[OF s1] by simp
  next
    case False
    then show ?thesis using "1.prems" by (subst (asm) count_loop.simps) simp
  qed
qed

lemma clips_loop_shape:
  "clips_loop e cx cs st = Some (Inr st') \<Longrightarrow> shape (st_buffer st') = shape (st_buffer st)"
proof (induction cs arbitrary: st)
  case Nil
  then show ?case by simp
next
  case (Cons c cs)
  then show ?case by (auto split: sum.splits option.splits dest: count_loop_shape)
qed

lemma assemble_success:
  assumes "assemble e frames_path modality scale_h scale_w output_h output_w output_len mode = Some (Inr st)"
  shows "\<exists>t_index s_index buffer.
           select_windows e mode (int (length (list_frames e (frames_path ! 0)))) output_len
               (clips_per_video_of mode) (scale_h, scale_w) (output_h, output_w) = Some (Inr (t_index, s_index))
         \<and> np_empty e [clips_per_video_of mode, output_len, output_h, output_w, frame_chn_of modality] = Inr buffer
         \<and> clips_loop e
               \<lparr>cx_modality = modality, cx_path_content = map (list_frames e) frames_path,
                cx_frame_count = int (length (list_frames e (frames_path ! 0))), cx_t_index = t_index,
                cx_s_index = s_index, cx_scale_h = scale_h, cx_scale_w = scale_w\<rparr>
               [0 ..< nat (clips_per_video_of mode)] \<lparr>st_buffer = buffer, st_printed = []\<rparr> = Some (Inr st)
         \<and> length frames_path = (if modality = ''rgb'' then 1 else 2)"
proof -
  have m: "\<not> (if modality = ''rgb'' then length frames_path \<noteq> 1 else length frames_path \<noteq> 2)"
    and v: "\<not> mode \<notin> set [''train'', ''validation'', ''test'']"
    using assms unfolding assemble_def by (auto split: if_splits)
  have nth0: "map (list_frames e) frames_path ! 0 = list_frames e (frames_path ! 0)"
    using m by (auto split: if_splits)
  show ?thesis
    using assms m unfolding assemble_def Let_def if_not_P[OF m] if_not_P[OF v] nth0
    by (auto split: option.splits sum.splits prod.splits if_splits simp del: clips_loop.simps)
qed

lemma assemble_shape:
  assumes "assemble e frames_path modality scale_h scale_w output_h output_w output_len mode = Some (Inr st)"
  shows "shape (st_buffer st) =
           [nat (clips_per_video_of mode), nat output_len, nat output_h, nat output_w, nat (frame_chn_of modality)]"
proof -
  from assemble_success[OF assms] obtain cx buffer where
    b: "np_empty e [clips_per_video_of mode, output_len, output_h, output_w, frame_chn_of modality] = Inr buffer"
    and l: "clips_loop e cx [0 ..< nat (clips_per_video_of mode)]
              \<lparr>st_buffer = buffer, st_printed = []\<rparr> = Some (Inr st)"
    by blast
  have "shape buffer = [nat (clips_per_video_of mode), nat output_len, nat output_h, nat output_w, nat (frame_chn_of modality)]"
    using b by (auto simp add: np_empty_def split: if_splits)
  then show ?thesis using clips_loop_shape[OF l] by simp
qed

lemma flow_mean_sub_shape: "flow_mean_sub b = Inr r \<Longrightarrow> shape r = shape b"
  by (auto simp add: flow_mean_sub_def Let_def split: if_splits)

lemma finish_shape:
  assumes "finish modality mode mean_sub b = Inr v" and "shape b = [n, L, H, W, C]"
  shows "shape v = (if mode \<in> {''train'', ''validation''} then [C, L, H, W] else [n, C, L, H, W])"
proof -
  from assms(1) obtain s where s: "(if mean_sub \<and> modality = ''flow'' then flow_mean_sub b
            else Inr (as_float b)) = Inr s"
    and v: "v = (if mode \<in> set [''train'', ''validation'']
                   then transpose_axes [3, 0, 1, 2] (first_clip (normalize_buffer s))
                   else transpose_axes [0, 4, 1, 2, 3] (normalize_buffer s))"
    by (auto simp add: finish_def Let_def split: sum.splits)
  have "shape s = [n, L, H, W, C]"
    using s assms(2) by (auto simp add: as_float_def split: if_splits dest: flow_mean_sub_shape)
  then show ?thesis
    by (simp add: v transpose_axes_def first_clip_def normalize_buffer_def)
qed

lemma wrap_index_range:
  "1 \<le> fc \<Longrightarrow> 0 \<le> count \<Longrightarrow> \<exists>cc. wrap_index count fc = Some cc \<and> 0 \<le> cc \<and> cc < fc"
proof (induction "nat count" arbitrary: count rule: less_induct)
  case less
  show ?case
  proof (cases "count \<ge> fc")
    case True
    have "nat (count - fc) < nat count" using True less.prems by simp
    moreover have "0 \<le> count - fc" using True by simp
    ultimately obtain cc where "wrap_index (count - fc) fc = Some cc" "0 \<le> cc" "cc < fc"
      using less.hyps[of "count - fc"] less.prems(1) by blast
    moreover have "wrap_index count fc = wrap_index (count - fc) fc"
      using True by (subst wrap_index.simps) simp
    ultimately show ?thesis by simp
  next
    case False
    then have "wrap_index count fc = Some count" by (subst wrap_index.simps) simp
    then show ?thesis using False less.prems by simp
  qed
qed

lemma temporal_crop_start: "temporal_crop fc cl rnd = Inr w \<Longrightarrow> 0 \<le> fst w"
  by (auto simp add: temporal_crop_def randint_def Let_def split: if_splits sum.splits)

lemma ceiling_div_mult_ge:
  assumes "0 < (b::int)"
  shows "a \<le> b * \<lceil>(of_int a :: rat) / of_int b\<rceil>"
proof -
  define m where "m = \<lceil>(of_int a :: rat) / of_int b\<rceil>"
  have bpos: "(0::rat) < of_int b" using assms by simp
  have "(of_int a :: rat) / of_int b \<le> of_int m" unfolding m_def by (rule le_of_int_ceiling)
  then have "(of_int a :: rat) \<le> of_int m * of_int b"
    using bpos by (simp add: pos_divide_le_eq)
  then have "(of_int a :: rat) \<le> of_int (b * m)" by (simp add: mult.commute)
  then have "a \<le> b * m" by (simp only: of_int_le_iff)
  then show ?thesis by (simp add: m_def)
qed

lemma temporal_center_crop_start:
  assumes "temporal_center_crop fc cl = Inr w" and "1 \<le> fc"
  shows "0 \<le> fst w"
proof (cases "fc \<ge> cl")
  case True
  then show ?thesis using assms by (auto simp add: temporal_center_crop_def Let_def)
next
  case False
  have "cl \<le> fc * \<lceil>(of_int cl :: rat) / of_int fc\<rceil>"
    using ceiling_div_mult_ge[of fc cl] assms(2) by simp
  then show ?thesis using False assms by (auto simp add: temporal_center_crop_def Let_def)
qed

lemma py_round_nonneg: "0 \<le> x \<Longrightarrow> 0 \<le> py_round x"
proof -
  assume "0 \<le> x"
  then have "0 \<le> \<lfloor>x\<rfloor>" by simp
  then show ?thesis by (simp add: py_round_def Let_def)
qed

lemma uniform_fold_starts:
  assumes r: "\<And>en. cl \<le> en \<Longrightarrow> 0 \<le> py_round (of_int en + sp)"
  shows "\<forall>w \<in> set acc. 0 \<le> fst w \<and> snd w = fst w + cl \<Longrightarrow> length acc = nat j \<Longrightarrow> 1 \<le> j \<Longrightarrow>
         \<forall>w \<in> set (foldl (uniform_step cl sp) acc [j .. m]). 0 \<le> fst w \<and> snd w = fst w + cl"
proof (induction "nat (m + 1 - j)" arbitrary: j acc)
  case 0
  then have "[j .. m] = []" by simp
  then show ?case using "0.prems" by simp
next
  case (Suc k)
  then have jm: "j \<le> m" by simp
  then have up: "[j .. m] = j # [j + 1 .. m]" by (simp add: upto_rec1)
  define prev where "prev = acc ! nat (j - 1)"
  have "nat (j - 1) < length acc" using Suc.prems by simp
  then have "prev \<in> set acc" unfolding prev_def by simp
  then have "cl \<le> snd prev" using Suc.prems(1) by auto
  then have s: "0 \<le> py_round (of_int (snd prev) + sp)" by (rule r)
  define acc' where "acc' = uniform_step cl sp acc j"
  have a1: "\<forall>w \<in> set acc'. 0 \<le> fst w \<and> snd w = fst w + cl"
    using Suc.prems(1) s by (auto simp add: acc'_def uniform_step_def Let_def prev_def)
  have a2: "length acc' = nat (j + 1)"
    using Suc.prems by (simp add: acc'_def uniform_step_def Let_def nat_add_distrib)
  have "k = nat (m + 1 - (j + 1))" using Suc.hyps(2) by simp
  then have "\<forall>w \<in> set (foldl (uniform_step cl sp) acc' [j + 1 .. m]). 0 \<le> fst w \<and> snd w = fst w + cl"
    using Suc.hyps(1)[of "j + 1" acc'] a1 a2 Suc.prems(3) by simp
  then show ?case by (simp add: up acc'_def)
qed

lemma double_until_result:
  assumes "1 \<le> fc" and "double_until fc cl = Some b"
  shows "3 * cl \<le> 2 * b \<and> 1 \<le> b"
proof -
  obtain k where k: "double_until fc cl = Some (fc * 2 ^ k)" "\<not> (2 * (fc * 2 ^ k) < 3 * cl)"
    using double_until_terminates[OF assms(1)] by blast
  have "b = fc * 2 ^ k" using k(1) assms(2) by simp
  moreover have "(1::int) \<le> 2 ^ k" by simp
  then have "1 * 1 \<le> fc * 2 ^ k" using assms(1) by (intro mult_mono) simp_all
  then have "1 \<le> fc * 2 ^ k" by simp
  ultimately show ?thesis using k(2) by simp
qed

lemma temporal_uniform_crop_start:
  assumes "temporal_uniform_crop fc cl n = Some (Inr ws)" and "1 \<le> fc"
    and "w \<in> set ws" and "fst w < snd w"
  shows "0 \<le> fst w"
proof -
  obtain b where b: "double_until fc cl = Some b"
    using assms(1) by (auto simp add: temporal_uniform_crop_def split: option.splits)
  have bb: "3 * cl \<le> 2 * b" "1 \<le> b" using double_until_result[OF assms(2) b] by simp_all
  define sp where "sp = (of_int (b - cl * n) :: rat) / of_int (n - 1)"
  define mid where "mid = foldl (uniform_step cl sp) [(0, cl)] [1 .. n - 2]"
  have n1: "n - 1 \<noteq> 0" and ws: "ws = mid @ [(b - cl, b)]"
    using assms(1) b by (auto simp add: temporal_uniform_crop_def Let_def sp_def mid_def split: if_splits)
  have "\<forall>w \<in> set mid. snd w - fst w = cl"
    unfolding mid_def by (rule uniform_fold_width) simp
  then have "snd w - fst w = cl" using assms(3) ws by auto
  then have clpos: "1 \<le> cl" using assms(4) by simp
  then have last_ok: "0 \<le> b - cl" using bb by simp
  have mid_ok: "\<forall>w \<in> set mid. 0 \<le> fst w \<and> snd w = fst w + cl"
  proof (cases "2 \<le> n")
    case True
    have r: "\<And>en. cl \<le> en \<Longrightarrow> 0 \<le> py_round (of_int en + sp)"
    proof -
      fix en :: int
      assume en: "cl \<le> en"
      have npos: "(0::rat) < of_int (n - 1)" using True by simp
      have "(of_int cl :: rat) + sp = of_int (b - cl) / of_int (n - 1)"
        using npos by (simp add: sp_def field_simps)
      moreover have "(0::rat) \<le> of_int (b - cl) / of_int (n - 1)"
        using npos last_ok by simp
      ultimately have "(0::rat) \<le> of_int cl + sp" by simp
      moreover have "(of_int cl :: rat) \<le> of_int en" using en by simp
      ultimately have "(0::rat) \<le> of_int en + sp" by linarith
      then show "0 \<le> py_round (of_int en + sp)" by (rule py_round_nonneg)
    qed
    show ?thesis unfolding mid_def
      by (rule uniform_fold_starts[OF r]) simp_all
  next
    case False
    then have "[1 .. n - 2] = []" by simp
    then show ?thesis by (simp add: mid_def)
  qed
  show ?thesis using mid_ok last_ok assms(3) ws by auto
qed

lemma select_windows_start:
  assumes "select_windows e mode fc output_len n scale_size output_size = Some (Inr (tws, sw))"
    and "1 \<le> fc" and "w \<in> set tws" and "fst w < snd w"
  shows "0 \<le> fst w"
proof (cases "mode \<in> set [''train'', ''validation'']")
  case True
  show ?thesis
  proof (cases "mode = ''train''")
    case t: True
    then have "temporal_crop fc output_len (rnd_t e) = Inr w"
      using assms(1,3) by (auto simp add: select_windows_def split: sum.splits)
    then show ?thesis by (rule temporal_crop_start)
  next
    case f: False
    then have "temporal_center_crop fc output_len = Inr w"
      using True assms(1,3) by (auto simp add: select_windows_def split: sum.splits)
    then show ?thesis using assms(2) by (rule temporal_center_crop_start)
  qed
next
  case False
  then have "temporal_uniform_crop fc output_len n = Some (Inr tws)"
    using assms(1) by (auto simp add: select_windows_def split: sum.splits option.splits)
  then show ?thesis using assms(2,3,4) by (rule temporal_uniform_crop_start)
qed





















lemma temporal_uniform_crop_length:
  assumes "temporal_uniform_crop fc cl n = Some (Inr ws)" and "2 \<le> n"
  shows "length ws = nat n"
  using assms
  by (auto simp add: temporal_uniform_crop_def Let_def uniform_fold_length
        split: option.splits if_splits)

lemma select_windows_length:
  assumes "select_windows e mode fc output_len (clips_per_video_of mode) scale_size output_size
             = Some (Inr (tws, sw))"
  shows "length tws = nat (clips_per_video_of mode)"
proof (cases "mode \<in> set [''train'', ''validation'']")
  case True
  then show ?thesis using assms
    by (auto simp add: select_windows_def clips_per_video_of_def split: sum.splits if_splits)
next
  case False
  then have "temporal_uniform_crop fc output_len 10 = Some (Inr tws)"
    using assms by (auto simp add: select_windows_def clips_per_video_of_def split: sum.splits option.splits)
  then have "length tws = nat 10" by (rule temporal_uniform_crop_length) simp
  then show ?thesis using False by (simp add: clips_per_video_of_def)
qed


lemma finish_plain_elem:
  assumes "mean_sub = False \<or> modality \<noteq> ''flow''"
  shows "\<exists>volume. finish modality mode mean_sub b = Inr volume
           \<and> elem volume (if mode \<in> {''train'', ''validation''} then [i, t, y, x] else [c, i, t, y, x])
               = Finite ((elem b [if mode \<in> {''train'', ''validation''} then 0 else c, t, y, x, i] - 128) / 128)"
  using assms
  by (auto simp add: finish_def Let_def as_float_def normalize_buffer_def transpose_axes_def
        first_clip_def axis_position_def)

lemma slice_bounds_inside:
  assumes "0 \<le> s" and "0 \<le> n" and "s + n \<le> int m"
  shows "slice_bounds s (s + n) m = (nat s, nat n)"
  using assms by (simp add: slice_bounds_def Let_def min_def)

lemma store_frame_ok:
  assumes ok: "context_ok e cx oh ow"
    and sh: "shape b = [n, L, nat oh, nat ow, nat (frame_chn_of (cx_modality cx))]"
    and c: "c < n" and t: "t < L"
    and img: "good_image (cx_modality cx) img"
    and i: "cx_modality cx \<noteq> ''rgb'' \<longrightarrow> i < 2"
  shows "\<exists>b'. store_frame e cx c t i img b = Inr b'"
proof -
  define s_index where "s_index = cx_s_index cx"
  have pos: "0 < cx_scale_h cx" "0 < cx_scale_w cx" using ok by (simp_all add: context_ok_def)
  have nz: "0 \<notin> set (shape img)" using img by (simp add: good_image_def)
  define resized where "resized = \<lparr>shape = nat (cx_scale_h cx) # nat (cx_scale_w cx) # drop 2 (shape img),
                elem = resize_px e img (nat (cx_scale_h cx)) (nat (cx_scale_w cx))\<rparr>"
  have rs: "cv_resize e img (cx_scale_w cx) (cx_scale_h cx) = Inr resized"
    using pos nz by (simp add: cv_resize_def resized_def)
  have rb: "slice_bounds (fst (fst s_index)) (snd (fst s_index)) (nat (cx_scale_h cx)) = (nat (fst (fst s_index)), nat oh)"
    using ok slice_bounds_inside[of "fst (fst s_index)" oh "nat (cx_scale_h cx)"]
    by (simp add: context_ok_def s_index_def)
  have cb: "slice_bounds (fst (snd s_index)) (snd (snd s_index)) (nat (cx_scale_w cx)) = (nat (fst (snd s_index)), nat ow)"
    using ok slice_bounds_inside[of "fst (snd s_index)" ow "nat (cx_scale_w cx)"]
    by (simp add: context_ok_def s_index_def)
  show ?thesis
  proof (cases "cx_modality cx = ''rgb''")
    case True
    then obtain r w where "shape img = [r, w, 3]"
      using img by (cases "shape img" rule: list.exhaust; simp add: good_image_def)
         (metis (no_types, opaque_lifting) length_0_conv length_Suc_conv nth_Cons_0 nth_Cons_Suc numeral_2_eq_2 numeral_3_eq_3 One_nat_def Suc_inject)
    then have rshape: "shape resized = [nat (cx_scale_h cx), nat (cx_scale_w cx), 3]"
      by (simp add: resized_def)
    obtain cropped where cr: "crop_frame resized s_index = Inr cropped"
      and cs: "shape cropped = [nat oh, nat ow, 3]"
      using rshape rb cb by (simp add: crop_frame_def Let_def)
    have "\<exists>b'. copyto_rgb b c t cropped = Inr b'"
      using sh c t cs True by (simp add: copyto_rgb_def broadcastable_def frame_chn_of_def)
    then show ?thesis using True rs cr by (simp add: store_frame_def s_index_def)
  next
    case False
    then have fl: "cx_modality cx = ''flow''" using ok by (simp add: context_ok_def)
    obtain r w where "shape img = [r, w]"
      using img False by (cases "shape img" rule: list.exhaust; simp add: good_image_def)
         (metis (no_types, opaque_lifting) length_0_conv length_Suc_conv numeral_2_eq_2 Suc_inject)
    then have rshape: "shape (add_channel_axis resized) = [nat (cx_scale_h cx), nat (cx_scale_w cx), 1]"
      by (simp add: resized_def add_channel_axis_def)
    obtain cropped where cr: "crop_frame (add_channel_axis resized) s_index = Inr cropped"
      and cs: "shape cropped = [nat oh, nat ow, 1]"
      using rshape rb cb by (simp add: crop_frame_def Let_def)
    have "\<exists>b'. copyto_flow b c t i cropped = Inr b'"
      using sh c t cs False i by (simp add: copyto_flow_def broadcastable_def frame_chn_of_def)
    then show ?thesis using False fl rs cr by (simp add: store_frame_def s_index_def)
  qed
qed

lemma py_index_inside:
  assumes "int (length xs) = fc" and "0 \<le> cc" and "cc < fc"
  shows "py_index xs cc = Inr (xs ! nat cc)" and "xs ! nat cc \<in> set xs"
  using assms by (auto simp add: py_index_def)

lemma write_frames_ok:
  "context_ok e cx oh ow \<Longrightarrow>
   shape (st_buffer st) = [n, L, nat oh, nat ow, nat (frame_chn_of (cx_modality cx))] \<Longrightarrow>
   c < n \<Longrightarrow> t < L \<Longrightarrow> 0 \<le> cc \<Longrightarrow> cc < cx_frame_count cx \<Longrightarrow>
   i + length fs \<le> length (cx_path_content cx) \<Longrightarrow>
   (\<forall>img. Some img \<in> set fs \<longrightarrow> good_image (cx_modality cx) img) \<Longrightarrow>
   \<exists>st'. write_frames e cx c t cc i fs st = Inr st'"
proof (induction e cx c t cc i fs st rule: write_frames.induct)
  case (1 e cx c t ccount i st)
  then show ?case by simp
next
  case (2 e cx c t ccount i fs st)
  have "i < length (cx_path_content cx)" using "2.prems"(7) by simp
  then have "cx_path_content cx ! i \<in> set (cx_path_content cx)" by simp
  then have "int (length (cx_path_content cx ! i)) = cx_frame_count cx"
    using "2.prems"(1) by (simp add: context_ok_def)
  then have p: "py_index (cx_path_content cx ! i) ccount = Inr (cx_path_content cx ! i ! nat ccount)"
    using "2.prems"(5,6) by (rule py_index_inside(1))
  have "\<exists>st'. write_frames e cx c t ccount (Suc i) fs
           (st\<lparr>st_printed := st_printed st @ [cx_path_content cx ! i ! nat ccount]\<rparr>) = Inr st'"
    using "2.IH"[OF p] "2.prems" by simp
  then show ?case using p by simp
next
  case (3 e cx c t ccount i img fs st)
  have len: "length (cx_path_content cx) \<le> 2"
    using "3.prems"(1) by (simp add: context_ok_def split: if_splits)
  have i: "cx_modality cx \<noteq> ''rgb'' \<longrightarrow> i < 2" using "3.prems"(7) len by simp
  have g: "good_image (cx_modality cx) img" using "3.prems"(8) by simp
  obtain b where b: "store_frame e cx c t i img (st_buffer st) = Inr b"
    using store_frame_ok[OF "3.prems"(1,2,3,4) g i] by blast
  have "shape b = shape (st_buffer st)" using store_frame_shape[OF b] .
  then have "\<exists>st'. write_frames e cx c t ccount (Suc i) fs (st\<lparr>st_buffer := b\<rparr>) = Inr st'"
    using "3.IH"[OF b] "3.prems" by simp
  then show ?case using b by simp
qed

lemma cvtColor_good:
  assumes "good_image m img"
  shows "\<exists>img'. cvtColor_bgr2rgb (Some img) = Inr img' \<and> good_image m img'"
  using assms by (simp add: cvtColor_bgr2rgb_def good_image_def)

lemma read_frames_ok:
  assumes ok: "context_ok e cx oh ow" and cc: "0 \<le> cc" "cc < cx_frame_count cx"
  shows "\<exists>fs. read_frames e cx cc = Inr fs \<and> length fs = length (cx_path_content cx)
           \<and> (\<forall>img. Some img \<in> set fs \<longrightarrow> good_image (cx_modality cx) img)"
proof (cases "cx_modality cx = ''rgb''")
  case True
  have l0: "cx_path_content cx ! 0 \<in> set (cx_path_content cx)"
    using ok True by (simp add: context_ok_def)
  then have "int (length (cx_path_content cx ! 0)) = cx_frame_count cx"
    using ok by (simp add: context_ok_def)
  then have p: "py_index (cx_path_content cx ! 0) cc = Inr (cx_path_content cx ! 0 ! nat cc)"
    and mem: "cx_path_content cx ! 0 ! nat cc \<in> set (cx_path_content cx ! 0)"
    using py_index_inside[OF _ cc] by auto
  obtain img where img: "imread_color e (cx_path_content cx ! 0 ! nat cc) = Some img"
    "good_image (cx_modality cx) img"
    using ok True mem by (auto simp add: context_ok_def)
  obtain img' where "cvtColor_bgr2rgb (Some img) = Inr img'" "good_image (cx_modality cx) img'"
    using cvtColor_good[OF img(2)] by blast
  then show ?thesis using True p img(1) ok by (simp add: read_frames_def context_ok_def)
next
  case False
  have len: "length (cx_path_content cx) = 2" using ok False by (simp add: context_ok_def)
  have l0: "cx_path_content cx ! 0 \<in> set (cx_path_content cx)"
    and l1: "cx_path_content cx ! 1 \<in> set (cx_path_content cx)" using len by simp_all
  have n0: "int (length (cx_path_content cx ! 0)) = cx_frame_count cx"
    and n1: "int (length (cx_path_content cx ! 1)) = cx_frame_count cx"
    using ok l0 l1 by (simp_all add: context_ok_def)
  have p0: "py_index (cx_path_content cx ! 0) cc = Inr (cx_path_content cx ! 0 ! nat cc)"
    and m0: "cx_path_content cx ! 0 ! nat cc \<in> set (cx_path_content cx ! 0)"
    using py_index_inside[OF n0 cc] by auto
  have p1: "py_index (cx_path_content cx ! 1) cc = Inr (cx_path_content cx ! 1 ! nat cc)"
    and m1: "cx_path_content cx ! 1 ! nat cc \<in> set (cx_path_content cx ! 1)"
    using py_index_inside[OF n1 cc] by auto
  have good: "\<And>l p img. l \<in> set (cx_path_content cx) \<Longrightarrow> p \<in> set l \<Longrightarrow> imread_gray e p = Some img
                \<Longrightarrow> good_image (cx_modality cx) img"
    using ok False unfolding context_ok_def by auto
  have g0: "\<And>img. imread_gray e (cx_path_content cx ! 0 ! nat cc) = Some img \<Longrightarrow> good_image (cx_modality cx) img"
    using good[OF l0 m0] by simp
  have g1: "\<And>img. imread_gray e (cx_path_content cx ! 1 ! nat cc) = Some img \<Longrightarrow> good_image (cx_modality cx) img"
    using good[OF l1 m1] by simp
  have "read_frames e cx cc = Inr [imread_gray e (cx_path_content cx ! 0 ! nat cc),
                                    imread_gray e (cx_path_content cx ! 1 ! nat cc)]"
    using False p0 p1 by (simp add: read_frames_def)
  then show ?thesis using len g0 g1 by auto
qed

lemma frame_step_ok:
  assumes ok: "context_ok e cx oh ow"
    and sh: "shape (st_buffer st) = [n, L, nat oh, nat ow, nat (frame_chn_of (cx_modality cx))]"
    and c: "c < n" and s: "0 \<le> start" "start \<le> count" and t: "count < start + int L"
  shows "\<exists>st'. frame_step e cx c start count st = Some (Inr st')"
proof -
  have fc: "1 \<le> cx_frame_count cx" using ok by (simp add: context_ok_def)
  have "0 \<le> count" using s by simp
  then obtain cc where cc: "wrap_index count (cx_frame_count cx) = Some cc" "0 \<le> cc" "cc < cx_frame_count cx"
    using wrap_index_range[OF fc] by blast
  obtain fs where fs: "read_frames e cx cc = Inr fs" "length fs = length (cx_path_content cx)"
    "\<forall>img. Some img \<in> set fs \<longrightarrow> good_image (cx_modality cx) img"
    using read_frames_ok[OF ok cc(2,3)] by blast
  have tt: "nat (count - start) < L" using s t by simp
  have "\<exists>st'. write_frames e cx c (nat (count - start)) cc 0 fs st = Inr st'"
    using write_frames_ok[OF ok sh c tt cc(2,3) _ fs(3)] fs(2) by simp
  then show ?thesis using cc(1) fs(1) by (simp add: frame_step_def)
qed

lemma count_loop_ok:
  "context_ok e cx oh ow \<Longrightarrow>
   shape (st_buffer st) = [n, L, nat oh, nat ow, nat (frame_chn_of (cx_modality cx))] \<Longrightarrow>
   c < n \<Longrightarrow> 0 \<le> start \<Longrightarrow> start \<le> count \<Longrightarrow> stop \<le> start + int L \<Longrightarrow>
   \<exists>st'. count_loop e cx c start count stop st = Some (Inr st')"
proof (induction e cx c start count stop st rule: count_loop.induct)
  case (1 e cx c start count stop st)
  show ?case
  proof (cases "count < stop")
    case True
    then have "count < start + int L" using "1.prems"(6) by simp
    then obtain st1 where s1: "frame_step e cx c start count st = Some (Inr st1)"
      using frame_step_ok[OF "1.prems"(1,2,3,4,5)] by blast
    have "shape (st_buffer st1) = [n, L, nat oh, nat ow, nat (frame_chn_of (cx_modality cx))]"
      using frame_step_shape[OF s1] "1.prems"(2) by simp
    then obtain st' where "count_loop e cx c start (count + 1) stop st1 = Some (Inr st')"
      using "1.IH"[OF True s1 _ "1.prems"(1)] "1.prems"(3,4,5,6) by auto
    then show ?thesis using True s1 by (subst count_loop.simps) simp
  next
    case False
    then show ?thesis by (subst count_loop.simps) simp
  qed
qed

lemma clips_loop_ok:
  "context_ok e cx oh ow \<Longrightarrow>
   shape (st_buffer st) = [n, L, nat oh, nat ow, nat (frame_chn_of (cx_modality cx))] \<Longrightarrow>
   (\<forall>c \<in> set cs. c < n \<and> c < length (cx_t_index cx)) \<Longrightarrow>
   (\<forall>w \<in> set (cx_t_index cx). 0 \<le> fst w \<and> snd w \<le> fst w + int L) \<Longrightarrow>
   \<exists>st'. clips_loop e cx cs st = Some (Inr st')"
proof (induction cs arbitrary: st)
  case Nil
  then show ?case by simp
next
  case (Cons c cs)
  define win where "win = cx_t_index cx ! c"
  have c: "c < n" "c < length (cx_t_index cx)" using Cons.prems(3) by simp_all
  then have w: "py_index (cx_t_index cx) (int c) = Inr win"
    by (simp add: py_index_def win_def)
  have "win \<in> set (cx_t_index cx)" using c(2) by (simp add: win_def)
  then have b: "0 \<le> fst win" "snd win \<le> fst win + int L" using Cons.prems(4) by simp_all
  obtain st1 where s1: "count_loop e cx c (fst win) (fst win) (snd win) st = Some (Inr st1)"
    using count_loop_ok[OF Cons.prems(1,2) c(1) b(1) _ b(2)] by auto
  have "shape (st_buffer st1) = [n, L, nat oh, nat ow, nat (frame_chn_of (cx_modality cx))]"
    using count_loop_shape[OF s1] Cons.prems(2) by simp
  then obtain st' where "clips_loop e cx cs st1 = Some (Inr st')"
    using Cons.IH[of st1] Cons.prems(1,3,4) by auto
  then show ?case using w s1 by simp
qed

lemma temporal_center_crop_ok:
  assumes "1 \<le> fc"
  shows "\<exists>s. temporal_center_crop fc cl = Inr (s, s + cl)"
  using assms by (simp add: temporal_center_crop_def Let_def)

lemma temporal_crop_ok:
  assumes "1 \<le> frame_count" and "frame_count = 32 \<longrightarrow> clip_len < 64"
  shows "\<exists>s. temporal_crop frame_count clip_len rnd = Inr (s, s + clip_len) \<and> 0 \<le> s
            \<and> s + clip_len \<le> (if of_int frame_count \<ge> sample_len_of clip_len then frame_count
                                else frame_count * crop_multiplier frame_count clip_len)"
proof -
  define looped where "looped = (if of_int frame_count \<ge> sample_len_of clip_len then frame_count
                                else frame_count * crop_multiplier frame_count clip_len)"
  have pos: "0 < looped - clip_len"
  proof (cases "of_int frame_count \<ge> sample_len_of clip_len")
    case True
    then have "3 * clip_len \<le> 2 * frame_count" using sample_len_lt_iff[of frame_count clip_len] by simp
    then show ?thesis using True assms(1) by (simp add: looped_def)
  next
    case False
    then have lt: "2 * frame_count < 3 * clip_len" using sample_len_lt_iff[of frame_count clip_len] by simp
    show ?thesis
    proof (cases "frame_count = 32")
      case True
      then show ?thesis using False assms(2) by (simp add: looped_def crop_multiplier_def)
    next
      case ne: False
      define m where "m = \<lceil>sample_len_of clip_len / of_int frame_count\<rceil>"
      have fpos: "(0::rat) < of_int frame_count" using assms(1) by simp
      have "sample_len_of clip_len / of_int frame_count \<le> of_int m" unfolding m_def by (rule le_of_int_ceiling)
      then have "sample_len_of clip_len \<le> of_int m * of_int frame_count"
        using fpos by (simp add: pos_divide_le_eq)
      then have "(of_int (3 * clip_len) :: rat) \<le> of_int (2 * (m * frame_count))"
        by (simp add: sample_len_of_def field_simps)
      then have "3 * clip_len \<le> 2 * (m * frame_count)" by (simp only: of_int_le_iff)
      then have "0 < frame_count * m - clip_len" using lt assms(1) by (simp add: mult.commute)
      then show ?thesis using False ne assms(1) by (simp add: looped_def crop_multiplier_def m_def)
    qed
  qed
  obtain s where s: "randint (looped - clip_len) rnd = Inr s" "0 \<le> s" "s < looped - clip_len"
    using randint_range[OF pos] by blast
  have "temporal_crop frame_count clip_len rnd = Inr (s, s + clip_len)"
    using s(1) by (auto simp add: temporal_crop_def looped_def Let_def split: if_splits)
  then show ?thesis using s unfolding looped_def by auto
qed

lemma spatial_crop_ok:
  assumes "crop_h < scale_h" and "crop_w < scale_w"
  shows "\<exists>sh sw. spatial_crop (scale_h, scale_w) (crop_h, crop_w) rh rw
                       = Inr ((sh, sh + crop_h), (sw, sw + crop_w))
               \<and> 0 \<le> sh \<and> sh + crop_h \<le> scale_h \<and> 0 \<le> sw \<and> sw + crop_w \<le> scale_w"
proof -
  obtain sh where sh: "randint (scale_h - crop_h) rh = Inr sh" "0 \<le> sh" "sh < scale_h - crop_h"
    using randint_range[of "scale_h - crop_h" rh] assms(1) by auto
  obtain sw where sw: "randint (scale_w - crop_w) rw = Inr sw" "0 \<le> sw" "sw < scale_w - crop_w"
    using randint_range[of "scale_w - crop_w" rw] assms(2) by auto
  have "spatial_crop (scale_h, scale_w) (crop_h, crop_w) rh rw
                       = Inr ((sh, sh + crop_h), (sw, sw + crop_w))"
    using sh(1) sw(1) by (simp add: spatial_crop_def)
  then show ?thesis using sh sw by auto
qed

lemma uniform_windows_ok:
  assumes "1 \<le> frame_count" and "2 \<le> n"
  shows "\<exists>b ws. double_until frame_count clip_len = Some b
           \<and> temporal_uniform_crop frame_count clip_len n = Some (Inr ws)
           \<and> length ws = nat n
           \<and> (\<forall>w \<in> set ws. snd w - fst w = clip_len)
           \<and> hd ws = (0, clip_len)
           \<and> last ws = (b - clip_len, b)"
proof -
  obtain k where k: "double_until frame_count clip_len = Some (frame_count * 2 ^ k)"
    using double_until_terminates[OF assms(1)] by blast
  define b where "b = frame_count * 2 ^ k"
  define sp where "sp = (of_int (b - clip_len * n) :: rat) / of_int (n - 1)"
  define mid where "mid = foldl (uniform_step clip_len sp) [(0, clip_len)] [1 .. n - 2]"
  define ws where "ws = mid @ [(b - clip_len, b)]"
  have res: "temporal_uniform_crop frame_count clip_len n = Some (Inr ws)"
    using assms(2) by (simp add: temporal_uniform_crop_def k ws_def mid_def sp_def b_def Let_def)
  have len: "length ws = nat n"
    using assms(2) by (simp add: ws_def mid_def uniform_fold_length)
  have "\<forall>w \<in> set mid. snd w - fst w = clip_len"
    unfolding mid_def by (rule uniform_fold_width) simp
  then have width: "\<forall>w \<in> set ws. snd w - fst w = clip_len" by (simp add: ws_def)
  have "length mid = 1 + length [1 .. n - 2]"
    unfolding mid_def by (simp add: uniform_fold_length)
  then have "mid \<noteq> []" by auto
  moreover have "hd mid = (0, clip_len)" unfolding mid_def by (simp add: uniform_fold_hd)
  ultimately have h: "hd ws = (0, clip_len)" by (simp add: ws_def)
  have l: "last ws = (b - clip_len, b)" by (simp add: ws_def)
  show ?thesis using k res len width h l unfolding b_def by blast
qed

lemma spatial_center_crop_ok:
  assumes "0 \<le> oh" "oh \<le> sh" "0 \<le> ow" "ow \<le> sw"
  shows "\<exists>a b. spatial_center_crop (sh, sw) (oh, ow) = ((a, a + oh), (b, b + ow))
           \<and> 0 \<le> a \<and> a + oh \<le> sh \<and> 0 \<le> b \<and> b + ow \<le> sw"
proof -
  have "0 \<le> (sh - oh) div 2" "(sh - oh) div 2 + oh \<le> sh"
       "0 \<le> (sw - ow) div 2" "(sw - ow) div 2 + ow \<le> sw"
    using assms by linarith+
  then show ?thesis by (simp add: spatial_center_crop_def Let_def)
qed

lemma select_windows_ok:
  assumes mode: "mode \<in> set [''train'', ''validation'', ''test'']"
    and fc: "1 \<le> fc" and sizes: "1 \<le> cl" "0 \<le> oh" "0 \<le> ow"
    and fit: "if mode = ''train'' then oh < sh \<and> ow < sw \<and> (fc = 32 \<longrightarrow> cl < 64)
              else oh \<le> sh \<and> ow \<le> sw"
  shows "\<exists>tws a b. select_windows e mode fc cl (clips_per_video_of mode) (sh, sw) (oh, ow)
                      = Some (Inr (tws, ((a, a + oh), (b, b + ow))))
           \<and> 0 \<le> a \<and> a + oh \<le> sh \<and> 0 \<le> b \<and> b + ow \<le> sw
           \<and> (\<forall>w \<in> set tws. 0 \<le> fst w \<and> snd w = fst w + cl)"
proof -
  have ex: "\<exists>tws a b. select_windows e mode fc cl (clips_per_video_of mode) (sh, sw) (oh, ow)
                      = Some (Inr (tws, ((a, a + oh), (b, b + ow))))
           \<and> 0 \<le> a \<and> a + oh \<le> sh \<and> 0 \<le> b \<and> b + ow \<le> sw
           \<and> (\<forall>w \<in> set tws. snd w = fst w + cl)"
  proof (cases "mode = ''train''")
    case True
    obtain s where s: "temporal_crop fc cl (rnd_t e) = Inr (s, s + cl)"
      using temporal_crop_ok[OF fc, of cl "rnd_t e"] fit True by auto
    obtain a b where ab: "spatial_crop (sh, sw) (oh, ow) (rnd_h e) (rnd_w e) = Inr ((a, a + oh), (b, b + ow))"
      "0 \<le> a" "a + oh \<le> sh" "0 \<le> b" "b + ow \<le> sw"
      using spatial_crop_ok[of oh sh ow sw "rnd_h e" "rnd_w e"] fit True by auto
    show ?thesis using True s ab by (simp add: select_windows_def)
  next
    case False
    obtain a b where ab: "spatial_center_crop (sh, sw) (oh, ow) = ((a, a + oh), (b, b + ow))"
      "0 \<le> a" "a + oh \<le> sh" "0 \<le> b" "b + ow \<le> sw"
      using spatial_center_crop_ok[of oh sh ow sw] fit False sizes by auto
    show ?thesis
    proof (cases "mode = ''validation''")
      case True
      obtain s where s: "temporal_center_crop fc cl = Inr (s, s + cl)"
        using temporal_center_crop_ok[OF fc] by blast
      show ?thesis using True s ab by (simp add: select_windows_def)
    next
      case nv: False
      then have test: "mode = ''test''" using mode False by simp
      obtain ws where ws: "temporal_uniform_crop fc cl 10 = Some (Inr ws)"
        "\<forall>w \<in> set ws. snd w - fst w = cl"
        using uniform_windows_ok[OF fc, of 10 cl] by auto
      have "\<forall>w \<in> set ws. snd w = fst w + cl" using ws(2) by auto
      then show ?thesis using test ws(1) ab by (simp add: select_windows_def clips_per_video_of_def)
    qed
  qed
  then obtain tws a b where r: "select_windows e mode fc cl (clips_per_video_of mode) (sh, sw) (oh, ow)
                      = Some (Inr (tws, ((a, a + oh), (b, b + ow))))"
    and ab: "0 \<le> a" "a + oh \<le> sh" "0 \<le> b" "b + ow \<le> sw"
    and w: "\<forall>w \<in> set tws. snd w = fst w + cl" by blast
  have "\<forall>w \<in> set tws. 0 \<le> fst w"
  proof
    fix x assume x: "x \<in> set tws"
    then have "fst x < snd x" using w sizes(1) by auto
    then show "0 \<le> fst x" using select_windows_start[OF r fc x] by simp
  qed
  then show ?thesis using r ab w by blast
qed

lemma valid_call_facts:
  assumes "valid_call e frames_path modality scale_h scale_w output_h output_w output_len mode"
  shows "modality = ''rgb'' \<or> modality = ''flow''"
    and "length frames_path = (if modality = ''rgb'' then 1 else 2)"
    and "mode \<in> set [''train'', ''validation'', ''test'']"
    and "1 \<le> int (length (list_frames e (frames_path ! 0)))"
    and "1 \<le> output_len" and "1 \<le> output_h" and "1 \<le> output_w"
    and "if mode = ''train''
         then output_h < scale_h \<and> output_w < scale_w
              \<and> (int (length (list_frames e (frames_path ! 0))) = 32 \<longrightarrow> output_len < 64)
         else output_h \<le> scale_h \<and> output_w \<le> scale_w"
    and "decodes_well e frames_path modality"
  using assms unfolding valid_call_def by (simp_all split: if_splits)

lemma decodes_well_rgb:
  assumes "decodes_well e frames_path ''rgb''" and "p \<in> set (list_frames e (frames_path ! 0))"
  shows "\<exists>img. imread_color e p = Some img \<and> good_image ''rgb'' img"
  using assms by (auto simp add: decodes_well_def list_all_iff split: option.splits)

lemma decodes_well_flow:
  assumes "decodes_well e frames_path modality" and "modality \<noteq> ''rgb''" and "dir \<in> set frames_path"
  shows "length (list_frames e dir) = length (list_frames e (frames_path ! 0))"
    and "p \<in> set (list_frames e dir) \<Longrightarrow> imread_gray e p = Some img \<Longrightarrow> good_image modality img"
  using assms by (auto simp add: decodes_well_def list_all_iff split: option.splits)

lemma valid_call_context:
  assumes v: "valid_call e frames_path modality scale_h scale_w output_h output_w output_len mode"
    and a: "0 \<le> a" "a + output_h \<le> scale_h" and b: "0 \<le> b" "b + output_w \<le> scale_w"
  shows "context_ok e
           \<lparr>cx_modality = modality, cx_path_content = map (list_frames e) frames_path,
            cx_frame_count = int (length (list_frames e (frames_path ! 0))), cx_t_index = t_index,
            cx_s_index = ((a, a + output_h), (b, b + output_w)), cx_scale_h = scale_h,
            cx_scale_w = scale_w\<rparr> output_h output_w"
proof -
  define cx where "cx = \<lparr>cx_modality = modality, cx_path_content = map (list_frames e) frames_path,
            cx_frame_count = int (length (list_frames e (frames_path ! 0))), cx_t_index = t_index,
            cx_s_index = ((a, a + output_h), (b, b + output_w)), cx_scale_h = scale_h,
            cx_scale_w = scale_w\<rparr>"
  note f = valid_call_facts[OF v]
  have sel: "cx_modality cx = modality" "cx_path_content cx = map (list_frames e) frames_path"
    "cx_frame_count cx = int (length (list_frames e (frames_path ! 0)))"
    "cx_s_index cx = ((a, a + output_h), (b, b + output_w))"
    "cx_scale_h cx = scale_h" "cx_scale_w cx = scale_w"
    by (simp_all add: cx_def)
  have k1: "cx_modality cx \<in> set [''rgb'', ''flow'']" using f(1) sel(1) by auto
  have k2: "length (cx_path_content cx) = (if cx_modality cx = ''rgb'' then 1 else 2)"
    using f(2) by (simp add: sel)
  have k3: "1 \<le> cx_frame_count cx" using f(4) by (simp add: sel)
  have k4: "\<forall>l \<in> set (cx_path_content cx). int (length l) = cx_frame_count cx"
  proof (cases "modality = ''rgb''")
    case True
    then obtain d where "frames_path = [d]" using f(2) by (cases frames_path) auto
    then show ?thesis by (simp add: sel)
  next
    case False
    have "\<forall>dir \<in> set frames_path. length (list_frames e dir) = length (list_frames e (frames_path ! 0))"
      using decodes_well_flow(1)[OF f(9) False] by blast
    then show ?thesis unfolding sel by simp
  qed
  have nth0: "map (list_frames e) frames_path ! 0 = list_frames e (frames_path ! 0)"
    using f(2) by (auto split: if_splits)
  have k5: "if cx_modality cx = ''rgb''
         then \<forall>p \<in> set (cx_path_content cx ! 0).
                \<exists>img. imread_color e p = Some img \<and> good_image (cx_modality cx) img
         else \<forall>l \<in> set (cx_path_content cx). \<forall>p \<in> set l. \<forall>img.
                imread_gray e p = Some img \<longrightarrow> good_image (cx_modality cx) img"
  proof (cases "modality = ''rgb''")
    case True
    have "\<forall>p \<in> set (list_frames e (frames_path ! 0)).
            \<exists>img. imread_color e p = Some img \<and> good_image ''rgb'' img"
      using decodes_well_rgb[of e frames_path] f(9) True by blast
    then show ?thesis unfolding sel nth0 using True by simp
  next
    case False
    have "\<forall>dir \<in> set frames_path. \<forall>p \<in> set (list_frames e dir). \<forall>img.
            imread_gray e p = Some img \<longrightarrow> good_image modality img"
      using decodes_well_flow(2)[OF f(9) False] by blast
    then show ?thesis unfolding sel using False by simp
  qed
  have k6: "0 \<le> output_h" "0 \<le> output_w" using f(6,7) by simp_all
  have k7: "0 \<le> fst (fst (cx_s_index cx))"
    "snd (fst (cx_s_index cx)) = fst (fst (cx_s_index cx)) + output_h"
    "snd (fst (cx_s_index cx)) \<le> cx_scale_h cx"
    "0 \<le> fst (snd (cx_s_index cx))"
    "snd (snd (cx_s_index cx)) = fst (snd (cx_s_index cx)) + output_w"
    "snd (snd (cx_s_index cx)) \<le> cx_scale_w cx"
    using a b by (simp_all add: sel)
  have k8: "0 < cx_scale_h cx" "0 < cx_scale_w cx"
    using f(6,7) a b by (simp_all add: sel)
  have "context_ok e cx output_h output_w"
    unfolding context_ok_def using k1 k2 k3 k4 k5 k6 k7 k8 by blast
  then show ?thesis unfolding cx_def .
qed

lemma assemble_ok:
  assumes v: "valid_call e frames_path modality scale_h scale_w output_h output_w output_len mode"
  shows "\<exists>st. assemble e frames_path modality scale_h scale_w output_h output_w output_len mode
               = Some (Inr st)"
proof -
  note f = valid_call_facts[OF v]
  define fc where "fc = int (length (list_frames e (frames_path ! 0)))"
  have fit: "if mode = ''train'' then output_h < scale_h \<and> output_w < scale_w \<and> (fc = 32 \<longrightarrow> output_len < 64)
              else output_h \<le> scale_h \<and> output_w \<le> scale_w"
    using f(8) unfolding fc_def .
  have fc1: "1 \<le> fc" using f(4) unfolding fc_def .
  have oh0: "0 \<le> output_h" and ow0: "0 \<le> output_w" using f(6,7) by simp_all
  obtain tws a b where sel: "select_windows e mode fc output_len (clips_per_video_of mode)
                      (scale_h, scale_w) (output_h, output_w)
                      = Some (Inr (tws, ((a, a + output_h), (b, b + output_w))))"
    and ab: "0 \<le> a" "a + output_h \<le> scale_h" "0 \<le> b" "b + output_w \<le> scale_w"
    and w: "\<forall>w \<in> set tws. 0 \<le> fst w \<and> snd w = fst w + output_len"
    using select_windows_ok[OF f(3) fc1 f(5) oh0 ow0 fit, of e] by blast
  define cx where "cx = \<lparr>cx_modality = modality, cx_path_content = map (list_frames e) frames_path,
            cx_frame_count = int (length (list_frames e (frames_path ! 0))), cx_t_index = tws,
            cx_s_index = ((a, a + output_h), (b, b + output_w)), cx_scale_h = scale_h,
            cx_scale_w = scale_w\<rparr>"
  have ok: "context_ok e cx output_h output_w"
    unfolding cx_def using valid_call_context[OF v ab] .
  define buffer where "buffer = \<lparr>shape = map nat [clips_per_video_of mode, output_len, output_h, output_w,
                             frame_chn_of modality], elem = empty_mem e\<rparr>"
  have cpos: "0 \<le> clips_per_video_of mode" "0 \<le> frame_chn_of modality"
    by (simp_all add: clips_per_video_of_def frame_chn_of_def)
  have emp: "np_empty e [clips_per_video_of mode, output_len, output_h, output_w, frame_chn_of modality]
               = Inr buffer"
    using f(5,6,7) cpos by (simp add: np_empty_def buffer_def)
  have sh: "shape (st_buffer \<lparr>st_buffer = buffer, st_printed = []\<rparr>)
              = [nat (clips_per_video_of mode), nat output_len, nat output_h, nat output_w,
                 nat (frame_chn_of (cx_modality cx))]"
    by (simp add: buffer_def cx_def)
  have len: "length tws = nat (clips_per_video_of mode)"
    using select_windows_length[OF sel] .
  have cs: "\<forall>c \<in> set [0 ..< nat (clips_per_video_of mode)].
              c < nat (clips_per_video_of mode) \<and> c < length (cx_t_index cx)"
    using len by (simp add: cx_def)
  have ws: "\<forall>w \<in> set (cx_t_index cx). 0 \<le> fst w \<and> snd w \<le> fst w + int (nat output_len)"
    using w f(5) by (simp add: cx_def)
  obtain st where l: "clips_loop e cx [0 ..< nat (clips_per_video_of mode)]
                        \<lparr>st_buffer = buffer, st_printed = []\<rparr> = Some (Inr st)"
    using clips_loop_ok[OF ok sh cs ws] by blast
  have m: "\<not> (if modality = ''rgb'' then length frames_path \<noteq> 1 else length frames_path \<noteq> 2)"
    using f(2) by simp
  have vm: "\<not> mode \<notin> set [''train'', ''validation'', ''test'']" using f(3) by simp
  have nth0: "map (list_frames e) frames_path ! 0 = list_frames e (frames_path ! 0)"
    using f(2) by (auto split: if_splits)
  have "assemble e frames_path modality scale_h scale_w output_h output_w output_len mode = Some (Inr st)"
    unfolding assemble_def Let_def if_not_P[OF m] if_not_P[OF vm] nth0
    using sel emp l unfolding fc_def cx_def by (simp del: clips_loop.simps)
  then show ?thesis by blast
qed

lemma finish_ok:
  assumes "shape b = [n, L, H, W, C]" and "0 < L" "0 < H" "0 < W"
  shows "\<exists>v. finish modality mode mean_sub b = Inr v"
  using assms by (simp add: finish_def flow_mean_sub_def Let_def)

lemma load_clips_ok:
  assumes v: "valid_call e frames_path modality scale_h scale_w output_h output_w output_len mode"
  shows "\<exists>st volume. assemble e frames_path modality scale_h scale_w output_h output_w output_len mode
                         = Some (Inr st)
           \<and> load_clips e frames_path modality scale_h scale_w output_h output_w output_len mode mean_sub
               = Some (Inr (volume, st_printed st))"
proof -
  note f = valid_call_facts[OF v]
  obtain st where a: "assemble e frames_path modality scale_h scale_w output_h output_w output_len mode
               = Some (Inr st)" using assemble_ok[OF v] by blast
  have pos: "0 < nat output_len" "0 < nat output_h" "0 < nat output_w" using f(5,6,7) by simp_all
  obtain volume where "finish modality mode mean_sub (st_buffer st) = Inr volume"
    using finish_ok[OF assemble_shape[OF a] pos] by blast
  then show ?thesis using a by (simp add: load_clips_def)
qed

lemma wrap_index_total:
  assumes "1 \<le> fc"
  shows "\<exists>cc. wrap_index count fc = Some cc"
proof (cases "0 \<le> count")
  case True
  then show ?thesis using wrap_index_range[OF assms] by blast
next
  case False
  then have "wrap_index count fc = Some count" using assms by (subst wrap_index.simps) simp
  then show ?thesis by blast
qed

lemma frame_step_total:
  assumes "1 \<le> cx_frame_count cx"
  shows "\<exists>r. frame_step e cx c start count st = Some r"
proof -
  obtain cc where "wrap_index count (cx_frame_count cx) = Some cc"
    using wrap_index_total[OF assms] by blast
  then show ?thesis by (simp add: frame_step_def)
qed

lemma count_loop_total:
  "1 \<le> cx_frame_count cx \<Longrightarrow> \<exists>r. count_loop e cx c start count stop st = Some r"
proof (induction e cx c start count stop st rule: count_loop.induct)
  case (1 e cx c start count stop st)
  show ?case
  proof (cases "count < stop")
    case True
    obtain r where r: "frame_step e cx c start count st = Some r"
      using frame_step_total[OF "1.prems"] by blast
    show ?thesis
    proof (cases r)
      case (Inl err)
      then show ?thesis using True r by (subst count_loop.simps) simp
    next
      case (Inr st1)
      then obtain r' where "count_loop e cx c start (count + 1) stop st1 = Some r'"
        using "1.IH"[OF True _ _ "1.prems"] r by auto
      then show ?thesis using True r Inr by (subst count_loop.simps) simp
    qed
  next
    case False
    then show ?thesis by (subst count_loop.simps) simp
  qed
qed

lemma clips_loop_total:
  "1 \<le> cx_frame_count cx \<Longrightarrow> \<exists>r. clips_loop e cx cs st = Some r"
proof (induction cs arbitrary: st)
  case Nil
  then show ?case by simp
next
  case (Cons c cs)
  show ?case
  proof (cases "py_index (cx_t_index cx) (int c)")
    case (Inl err)
    then show ?thesis by simp
  next
    case (Inr win)
    obtain r where r: "count_loop e cx c (fst win) (fst win) (snd win) st = Some r"
      using count_loop_total[OF Cons.prems] by blast
    show ?thesis
    proof (cases r)
      case (Inl err)
      then show ?thesis using Inr r by simp
    next
      case st1: (Inr st1)
      obtain r' where "clips_loop e cx cs st1 = Some r'" using Cons.IH[OF Cons.prems] by blast
      then show ?thesis using Inr r st1 by simp
    qed
  qed
qed

lemma select_windows_total:
  assumes "1 \<le> fc"
  shows "\<exists>r. select_windows e mode fc cl n scale_size output_size = Some r"
proof -
  obtain k where "double_until fc cl = Some (fc * 2 ^ k)"
    using double_until_terminates[OF assms] by blast
  then have "\<exists>r. temporal_uniform_crop fc cl n = Some r" by (simp add: temporal_uniform_crop_def)
  then show ?thesis by (auto simp add: select_windows_def split: sum.splits)
qed

lemma assemble_total:
  assumes "1 \<le> length (list_frames e (frames_path ! 0))"
  shows "\<exists>r. assemble e frames_path modality scale_h scale_w output_h output_w output_len mode = Some r"
proof (cases "(if modality = ''rgb'' then length frames_path \<noteq> 1 else length frames_path \<noteq> 2)
               \<or> mode \<notin> set [''train'', ''validation'', ''test'']")
  case True
  then show ?thesis by (auto simp add: assemble_def)
next
  case False
  then have m: "\<not> (if modality = ''rgb'' then length frames_path \<noteq> 1 else length frames_path \<noteq> 2)"
    and vm: "\<not> mode \<notin> set [''train'', ''validation'', ''test'']" by blast+
  have nth0: "map (list_frames e) frames_path ! 0 = list_frames e (frames_path ! 0)"
    using m by (auto split: if_splits)
  define fc where "fc = int (length (list_frames e (frames_path ! 0)))"
  have fc1: "1 \<le> fc" using assms by (simp add: fc_def)
  obtain r where r: "select_windows e mode fc output_len (clips_per_video_of mode)
                      (scale_h, scale_w) (output_h, output_w) = Some r"
    using select_windows_total[OF fc1] by blast
  show ?thesis
  proof (cases r)
    case (Inl err)
    then show ?thesis unfolding assemble_def Let_def if_not_P[OF m] if_not_P[OF vm] nth0
      using r unfolding fc_def by simp
  next
    case (Inr ws)
    obtain t_index s_index where ws: "ws = (t_index, s_index)" by (cases ws)
    show ?thesis
    proof (cases "np_empty e [clips_per_video_of mode, output_len, output_h, output_w, frame_chn_of modality]")
      case e1: (Inl err)
      then show ?thesis unfolding assemble_def Let_def if_not_P[OF m] if_not_P[OF vm] nth0
        using r Inr ws unfolding fc_def by simp
    next
      case e2: (Inr buffer)
      define cx where "cx = \<lparr>cx_modality = modality, cx_path_content = map (list_frames e) frames_path,
            cx_frame_count = int (length (list_frames e (frames_path ! 0))), cx_t_index = t_index,
            cx_s_index = s_index, cx_scale_h = scale_h, cx_scale_w = scale_w\<rparr>"
      have "1 \<le> cx_frame_count cx" using assms by (simp add: cx_def)
      then obtain r' where "clips_loop e cx [0 ..< nat (clips_per_video_of mode)]
                        \<lparr>st_buffer = buffer, st_printed = []\<rparr> = Some r'"
        using clips_loop_total by blast
      then show ?thesis unfolding assemble_def Let_def if_not_P[OF m] if_not_P[OF vm] nth0
        using r Inr ws e2 unfolding fc_def cx_def by (simp del: clips_loop.simps)
    qed
  qed
qed

lemma load_clips_total:
  assumes "1 \<le> length (list_frames e (frames_path ! 0))"
  shows "\<exists>r. load_clips e frames_path modality scale_h scale_w output_h output_w output_len mode mean_sub
               = Some r"
proof -
  obtain r where "assemble e frames_path modality scale_h scale_w output_h output_w output_len mode = Some r"
    using assemble_total[OF assms] by blast
  then show ?thesis by (auto simp add: load_clips_def split: sum.splits)
qed

lemma load_clips_result_shape:
  assumes "load_clips e frames_path modality scale_h scale_w output_h output_w output_len mode mean_sub
             = Some (Inr (volume, printed))"
  shows "shape volume = canonical_shape modality mode output_len output_h output_w"
proof -
  from assms obtain st where
    a: "assemble e frames_path modality scale_h scale_w output_h output_w output_len mode = Some (Inr st)"
    and f: "finish modality mode mean_sub (st_buffer st) = Inr volume"
    by (auto simp add: load_clips_def split: option.splits sum.splits)
  show ?thesis using finish_shape[OF f assemble_shape[OF a]]
    by (simp add: clips_per_video_of_def frame_chn_of_def canonical_shape_def)
qed

text \<open>
  C2: for every frame listing of at least one frame, \<open>load_clips\<close> ends, and a volume
  that it returns has the shape (channels, clip_len, crop_h, crop_w) in the modes train and
  validation and (10, channels, clip_len, crop_h, crop_w) in the mode test, where 10 is the
  clip count that \<open>load_clips\<close> fixes for test and channels is 3 for rgb and 2 for flow;
  and on every valid call it does return a volume, of that shape. The frame count does not
  occur in the shape.
\<close>

theorem load_clips_shape:
  assumes "1 \<le> length (list_frames e (frames_path ! 0))"
  shows "(\<exists>r. load_clips e frames_path modality scale_h scale_w output_h output_w output_len mode
                 mean_sub = Some r)
         \<and> (\<forall>volume printed.
               load_clips e frames_path modality scale_h scale_w output_h output_w output_len mode
                 mean_sub = Some (Inr (volume, printed))
               \<longrightarrow> shape volume = canonical_shape modality mode output_len output_h output_w)
         \<and> (valid_call e frames_path modality scale_h scale_w output_h output_w output_len mode
              \<longrightarrow> (\<exists>volume printed.
                     load_clips e frames_path modality scale_h scale_w output_h output_w output_len
                       mode mean_sub = Some (Inr (volume, printed))
                     \<and> shape volume = canonical_shape modality mode output_len output_h output_w))"
proof -
  have t: "\<exists>r. load_clips e frames_path modality scale_h scale_w output_h output_w output_len mode
                 mean_sub = Some r"
    using load_clips_total[OF assms] .
  have s: "\<forall>volume printed.
               load_clips e frames_path modality scale_h scale_w output_h output_w output_len mode
                 mean_sub = Some (Inr (volume, printed))
               \<longrightarrow> shape volume = canonical_shape modality mode output_len output_h output_w"
    using load_clips_result_shape by blast
  have v: "valid_call e frames_path modality scale_h scale_w output_h output_w output_len mode
              \<longrightarrow> (\<exists>volume printed.
                     load_clips e frames_path modality scale_h scale_w output_h output_w output_len
                       mode mean_sub = Some (Inr (volume, printed))
                     \<and> shape volume = canonical_shape modality mode output_len output_h output_w)"
  proof
    assume vc: "valid_call e frames_path modality scale_h scale_w output_h output_w output_len mode"
    from load_clips_ok[OF vc, of mean_sub] obtain st :: asm_state and volume where
      "load_clips e frames_path modality scale_h scale_w output_h output_w output_len mode mean_sub
               = Some (Inr (volume, st_printed st))"
      by blast
    then show "\<exists>volume printed.
                     load_clips e frames_path modality scale_h scale_w output_h output_w output_len
                       mode mean_sub = Some (Inr (volume, printed))
                     \<and> shape volume = canonical_shape modality mode output_len output_h output_w"
      using load_clips_result_shape by blast
  qed
  show ?thesis using t s v by blast
qed




lemma read_frames_rgb_no_index_error:
  assumes "cx_modality cx = ''rgb''" and "py_index (cx_path_content cx ! 0) cc = Inr p"
  shows "read_frames e cx cc \<noteq> Inl IndexError"
  using assms by (auto simp add: read_frames_def cvtColor_bgr2rgb_def split: sum.splits option.splits)

lemma read_frames_flow_result:
  assumes "cx_modality cx \<noteq> ''rgb''" and "py_index (cx_path_content cx ! 0) cc = Inr p0"
    and "0 \<le> cc"
  shows "read_frames e cx cc =
           (if cc < int (length (cx_path_content cx ! 1))
            then Inr [imread_gray e p0, imread_gray e (cx_path_content cx ! 1 ! nat cc)]
            else Inl IndexError)"
  using assms by (simp add: read_frames_def py_index_def)

lemma frame_step_index:
  assumes fc: "1 \<le> cx_frame_count cx"
    and first: "cx_frame_count cx = int (length (cx_path_content cx ! 0))"
    and sel: "select_windows e mode (cx_frame_count cx) output_len clips_per_video scale_size
                output_size = Some (Inr (cx_t_index cx, s_index))"
    and win: "win \<in> set (cx_t_index cx)" and lo: "fst win \<le> count" and hi: "count < snd win"
  shows "\<exists>ccount. wrap_index count (cx_frame_count cx) = Some ccount
           \<and> 0 \<le> ccount \<and> ccount < cx_frame_count cx
           \<and> frame_step e cx c (fst win) count st
               = Some (case read_frames e cx ccount of
                         Inl err \<Rightarrow> Inl err
                       | Inr buffer_frame \<Rightarrow>
                           write_frames e cx c (nat (count - fst win)) ccount 0 buffer_frame st)
           \<and> py_index (cx_path_content cx ! 0) ccount = Inr (cx_path_content cx ! 0 ! nat ccount)
           \<and> (if cx_modality cx = ''rgb'' then read_frames e cx ccount \<noteq> Inl IndexError
              else read_frames e cx ccount =
                     (if ccount < int (length (cx_path_content cx ! 1))
                      then Inr [imread_gray e (cx_path_content cx ! 0 ! nat ccount),
                                imread_gray e (cx_path_content cx ! 1 ! nat ccount)]
                      else Inl IndexError))"
proof -
  have "0 \<le> fst win" using select_windows_start[OF sel fc win] lo hi by simp
  then have "0 \<le> count" using lo by simp
  then obtain cc where cc: "wrap_index count (cx_frame_count cx) = Some cc" "0 \<le> cc"
    "cc < cx_frame_count cx"
    using wrap_index_range[OF fc] by blast
  have p0: "py_index (cx_path_content cx ! 0) cc = Inr (cx_path_content cx ! 0 ! nat cc)"
    using cc(2,3) first by (simp add: py_index_def)
  have step: "frame_step e cx c (fst win) count st
               = Some (case read_frames e cx cc of
                         Inl err \<Rightarrow> Inl err
                       | Inr buffer_frame \<Rightarrow>
                           write_frames e cx c (nat (count - fst win)) cc 0 buffer_frame st)"
    using cc(1) by (simp add: frame_step_def)
  have rd: "if cx_modality cx = ''rgb'' then read_frames e cx cc \<noteq> Inl IndexError
              else read_frames e cx cc =
                     (if cc < int (length (cx_path_content cx ! 1))
                      then Inr [imread_gray e (cx_path_content cx ! 0 ! nat cc),
                                imread_gray e (cx_path_content cx ! 1 ! nat cc)]
                      else Inl IndexError)"
  proof (cases "cx_modality cx = ''rgb''")
    case True
    then show ?thesis using read_frames_rgb_no_index_error[OF True p0] by simp
  next
    case False
    then show ?thesis using read_frames_flow_result[OF False p0 cc(2)] by simp
  qed
  show ?thesis using cc step p0 rd by blast
qed

lemma lf_frames: "list_frames demo_env ''frames''
   = [''frames/1.jpg'', ''frames/2.jpg'', ''frames/3.jpg'', ''frames/4.jpg'', ''frames/5.jpg'']"
  by code_simp

lemma lf_u: "list_frames demo_env ''u'' = [''u/1.jpg'']" by code_simp
lemma lf_v: "list_frames demo_env ''v'' = [''v/1.jpg'']" by code_simp
lemma lf_uu: "list_frames demo_env ''uu'' = [''uu/1.jpg'', ''uu/2.jpg'']" by code_simp
lemma lf_bad: "list_frames demo_env ''bad'' = [''bad/1.jpg'']" by code_simp

lemma demo_imread_color:
  "imread_color demo_env path
     = (if path = ''bad/1.jpg'' then None else Some \<lparr>shape = [2, 2, 3], elem = (\<lambda>ix. 100)\<rparr>)"
  by (simp add: demo_env_def)

lemma demo_imread_gray:
  "imread_gray demo_env path
     = (if path = ''v/1.jpg'' then None else Some \<lparr>shape = [2, 2], elem = (\<lambda>ix. 100)\<rparr>)"
  by (simp add: demo_env_def)

text \<open>
  The test mode on the directory of five frames, clips of 16 frames: the windows loop over
  the five frames and the volume has the shape (10, 3, 16, 112, 112).
\<close>

theorem load_clips_shape_witness:
  "1 \<le> length (list_frames demo_env ([''frames''] ! 0))
   \<and> valid_call demo_env [''frames''] ''rgb'' 128 171 112 112 16 ''test''
   \<and> (\<exists>volume printed.
         load_clips demo_env [''frames''] ''rgb'' 128 171 112 112 16 ''test'' True
           = Some (Inr (volume, printed))
         \<and> shape volume = [10, 3, 16, 112, 112])"
proof -
  have l: "1 \<le> length (list_frames demo_env ([''frames''] ! 0))" by (simp add: lf_frames)
  have v: "valid_call demo_env [''frames''] ''rgb'' 128 171 112 112 16 ''test''"
    by (simp add: valid_call_def decodes_well_def lf_frames good_image_def demo_imread_color)
  show ?thesis
    using l v load_clips_shape[where e = demo_env and frames_path = "[''frames'']"
            and modality = "''rgb''" and scale_h = 128 and scale_w = 171 and output_h = 112
            and output_w = 112 and output_len = 16 and mode = "''test''" and mean_sub = True]
    by (simp add: canonical_shape_def)
qed


lemma demo_fields:
  "resize_px demo_env = (\<lambda>img h w ix. elem img (map (\<lambda>i. 0) ix))"
  "empty_mem demo_env = (\<lambda>ix. 7)"
  "rnd_t demo_env = 5" "rnd_h demo_env = 3" "rnd_w demo_env = 4"
  by (simp_all add: demo_env_def)

lemmas demo_run_defs = load_clips_def finish_def assemble_def clips_per_video_of_def frame_chn_of_def
  select_windows_def temporal_center_crop_def spatial_center_crop_def np_empty_def
  py_index_def count_loop.simps frame_step_def wrap_index.simps read_frames_def
  cvtColor_bgr2rgb_def store_frame_def cv_resize_def crop_frame_def slice_bounds_def
  copyto_rgb_def copyto_flow_def broadcastable_def valid_index_def bcast_def pixel_value_def
  add_channel_axis_def as_float_def normalize_buffer_def transpose_axes_def first_clip_def
  axis_position_def Let_def
  lf_u lf_v lf_uu lf_bad demo_imread_color demo_imread_gray demo_fields


text \<open>
  C9, as stated, fails in flow modality when the second directory lists fewer files than
  the first: the frame count is that of the first listing (two), and the index 1 is out of
  bounds for the second listing (one file). \<open>load_clips\<close> raises IndexError.
\<close>

theorem short_flow_listing_counterexample:
  "load_clips demo_env [''uu'', ''v''] ''flow'' 1 1 1 1 2 ''validation'' True
     = Some (Inl IndexError)"
  by (simp add: demo_run_defs)

text \<open>
  C9, amended: for every \<open>frame_count \<ge> 1\<close> (the length of the first listing), every
  position \<open>count\<close> of every selected window is mapped by the repeated subtraction to an
  index \<open>ccount\<close> of \<open>[0, frame_count)\<close>, and the loop body reads the listings at
  \<open>ccount\<close>: the access to the first listing is in bounds, in rgb modality no access
  raises IndexError, and in flow modality the access to the second listing is in bounds
  exactly when that listing has more than \<open>ccount\<close> entries, and raises IndexError
  otherwise.
\<close>

theorem frame_index_in_bounds:
  fixes path_content :: "string list list" and modality :: string
    and t_index :: "(int \<times> int) list" and s_index :: "(int \<times> int) \<times> (int \<times> int)"
    and scale_h :: int and scale_w :: int
  defines "frame_count \<equiv> int (length (path_content ! 0))"
  defines "cx \<equiv> \<lparr>cx_modality = modality, cx_path_content = path_content,
                   cx_frame_count = frame_count, cx_t_index = t_index, cx_s_index = s_index,
                   cx_scale_h = scale_h, cx_scale_w = scale_w\<rparr>"
  assumes fc: "1 \<le> frame_count"
    and sel: "select_windows e mode frame_count output_len clips_per_video (scale_h, scale_w)
                output_size = Some (Inr (t_index, s_index))"
    and win: "win \<in> set t_index" and lo: "fst win \<le> count" and hi: "count < snd win"
  shows "\<exists>ccount. wrap_index count frame_count = Some ccount
           \<and> 0 \<le> ccount \<and> ccount < frame_count
           \<and> frame_step e cx c (fst win) count st
               = Some (case read_frames e cx ccount of
                         Inl err \<Rightarrow> Inl err
                       | Inr buffer_frame \<Rightarrow>
                           write_frames e cx c (nat (count - fst win)) ccount 0 buffer_frame st)
           \<and> py_index (path_content ! 0) ccount = Inr (path_content ! 0 ! nat ccount)
           \<and> (if modality = ''rgb'' then read_frames e cx ccount \<noteq> Inl IndexError
              else read_frames e cx ccount =
                     (if ccount < int (length (path_content ! 1))
                      then Inr [imread_gray e (path_content ! 0 ! nat ccount),
                                imread_gray e (path_content ! 1 ! nat ccount)]
                      else Inl IndexError))"
proof -
  have s: "cx_frame_count cx = frame_count" "cx_path_content cx = path_content"
    "cx_t_index cx = t_index" "cx_modality cx = modality"
    by (simp_all add: cx_def)
  have a1: "1 \<le> cx_frame_count cx" using fc s by simp
  have a2: "cx_frame_count cx = int (length (cx_path_content cx ! 0))"
    using s by (simp add: frame_count_def)
  have a3: "select_windows e mode (cx_frame_count cx) output_len clips_per_video (scale_h, scale_w)
                output_size = Some (Inr (cx_t_index cx, s_index))" using sel s by simp
  have a4: "win \<in> set (cx_t_index cx)" using win s by simp
  show ?thesis using frame_step_index[OF a1 a2 a3 a4 lo hi] unfolding s .
qed

text \<open>
  The test mode on the directory of five frames, clips of 16 frames: position 39 of the
  last window is read at index 4.
\<close>

theorem frame_index_in_bounds_witness:
  "1 \<le> int (length (map (list_frames demo_env) [''frames''] ! 0))
   \<and> select_windows demo_env ''test'' (int (length (map (list_frames demo_env) [''frames''] ! 0)))
         16 10 (128, 171) (112, 112)
       = Some (Inr ([(0, 16), (3, 19), (6, 22), (9, 25), (12, 28), (15, 31), (18, 34), (21, 37),
                     (24, 40), (24, 40)], ((8, 120), (29, 141))))
   \<and> wrap_index 39 5 = Some 4
   \<and> py_index (list_frames demo_env ''frames'') 4 = Inr ''frames/5.jpg''
   \<and> (\<exists>ccount. wrap_index 39 (int (length (map (list_frames demo_env) [''frames''] ! 0))) = Some ccount
         \<and> 0 \<le> ccount \<and> ccount < 5
         \<and> py_index (map (list_frames demo_env) [''frames''] ! 0) ccount
             = Inr (map (list_frames demo_env) [''frames''] ! 0 ! nat ccount))"
proof -
  have l: "int (length (map (list_frames demo_env) [''frames''] ! 0)) = 5" by (simp add: lf_frames)
  have fc: "1 \<le> int (length (map (list_frames demo_env) [''frames''] ! 0))" using l by simp
  have sel: "select_windows demo_env ''test'' (int (length (map (list_frames demo_env) [''frames''] ! 0)))
         16 10 (128, 171) (112, 112)
       = Some (Inr ([(0, 16), (3, 19), (6, 22), (9, 25), (12, 28), (15, 31), (18, 34), (21, 37),
                     (24, 40), (24, 40)], ((8, 120), (29, 141))))"
    unfolding l by code_simp
  have w: "wrap_index 39 5 = Some 4" by code_simp
  have p: "py_index (list_frames demo_env ''frames'') 4 = Inr ''frames/5.jpg''"
    by (simp add: lf_frames py_index_def)
  have m: "((24::int), (40::int)) \<in> set [(0, 16), (3, 19), (6, 22), (9, 25), (12, 28), (15, 31), (18, 34), (21, 37),
                     (24, 40), (24, 40)]" by simp
  from frame_index_in_bounds[OF fc sel m, where count = 39 and modality = "''rgb''" and c = 0
         and st = "\<lparr>st_buffer = \<lparr>shape = [], elem = (\<lambda>ix. 0)\<rparr>, st_printed = []\<rparr>"]
  obtain ccount where "wrap_index 39 (int (length (map (list_frames demo_env) [''frames''] ! 0))) = Some ccount"
    "0 \<le> ccount" "ccount < int (length (map (list_frames demo_env) [''frames''] ! 0))"
    "py_index (map (list_frames demo_env) [''frames''] ! 0) ccount
             = Inr (map (list_frames demo_env) [''frames''] ! 0 ! nat ccount)"
    by auto
  then show ?thesis using fc sel w p l by auto
qed

subsection \<open>Construction of the Sample Provider\<close>

lemma init_validate_cases:
  "(init_validate dataset split mode modality lmode clips_per_video = Inl AssertionError)
     = (dataset \<notin> {''ucf'', ''hmdb''} \<or> split \<notin> {1, 2, 3} \<or> mode \<notin> {''train'', ''test''}
        \<or> modality \<notin> {''rgb'', ''flow''}
        \<or> (mode = ''train'' \<and> lmode \<noteq> ''clip'')
        \<or> (lmode = ''clip'' \<and> clips_per_video \<noteq> 1)
        \<or> (lmode \<noteq> ''clip'' \<and> clips_per_video \<le> 1))"
  "init_validate dataset split mode modality lmode clips_per_video = Inr ()
     \<or> init_validate dataset split mode modality lmode clips_per_video = Inl AssertionError"
proof -
  have s: "set [1 .. 3] = {1, 2, 3::int}" by (simp add: upto.simps)
  show "(init_validate dataset split mode modality lmode clips_per_video = Inl AssertionError)
     = (dataset \<notin> {''ucf'', ''hmdb''} \<or> split \<notin> {1, 2, 3} \<or> mode \<notin> {''train'', ''test''}
        \<or> modality \<notin> {''rgb'', ''flow''}
        \<or> (mode = ''train'' \<and> lmode \<noteq> ''clip'')
        \<or> (lmode = ''clip'' \<and> clips_per_video \<noteq> 1)
        \<or> (lmode \<noteq> ''clip'' \<and> clips_per_video \<le> 1))"
    unfolding init_validate_def s by auto
  show "init_validate dataset split mode modality lmode clips_per_video = Inr ()
     \<or> init_validate dataset split mode modality lmode clips_per_video = Inl AssertionError"
    unfolding init_validate_def by simp
qed

lemma parse_lines_ok:
  "\<forall>line \<in> set ls. 2 \<le> length (split_on CHR '' '' line) \<Longrightarrow>
   \<exists>rows. parse_lines fd m ls = Inr rows \<and> length rows = length ls
         \<and> map snd rows = map (\<lambda>line. split_on CHR '' '' line ! 1) ls"
proof (induction ls)
  case Nil
  then show ?case by simp
next
  case (Cons line ls)
  then obtain rows where r: "parse_lines fd m ls = Inr rows" "length rows = length ls"
    "map snd rows = map (\<lambda>line. split_on CHR '' '' line ! 1) ls" by auto
  have "2 \<le> length (split_on CHR '' '' line)" using Cons.prems by simp
  then obtain names where "parse_line fd m line = Inr (names, split_on CHR '' '' line ! 1)"
    by (simp add: parse_line_def Let_def)
  then show ?case using r by simp
qed

lemma convert_labels_ok:
  "\<forall>l \<in> set ls. to_int src l \<noteq> None \<Longrightarrow>
   \<exists>vs. convert_labels src ls = Inr vs \<and> length vs = length ls"
proof (induction ls)
  case Nil
  then show ?case by simp
next
  case (Cons l ls)
  then obtain vs where "convert_labels src ls = Inr vs" "length vs = length ls" by auto
  moreover obtain v where "to_int src l = Some v" using Cons.prems by auto
  ultimately show ?case by simp
qed

lemma subsample_ok:
  assumes "length names = length labs" and "0 < test_amt \<longrightarrow> labs \<noteq> []"
  shows "\<exists>chosen. subsample src test_amt names labs = Inr chosen
           \<and> length (fst chosen) = nat test_amt \<and> length (snd chosen) = nat test_amt"
  using assms by (simp add: subsample_def Let_def)

text \<open>
  C8, amended: construction raises AssertionError, whatever the mapping file, for every
  invalid configuration (dataset not \<open>ucf\<close> or \<open>hmdb\<close>, split not in \<open>{1, 2, 3}\<close>, mode not
  \<open>train\<close> or \<open>test\<close>, modality not \<open>rgb\<close> or \<open>flow\<close>, train mode with a load mode other
  than \<open>clip\<close>, load mode \<open>clip\<close> with \<open>clips_per_video \<noteq> 1\<close>, another load mode with
  \<open>clips_per_video \<le> 1\<close>); under a valid combination the assertions pass, and construction
  succeeds when the mapping file can be read, every line of it has a second field that
  converts to an integer, and the reduced subset is not drawn from an empty mapping.
\<close>

theorem construction_fails_fast:
  fixes dataset mode modality lmode :: string and split cpv :: int
  defines "invalid \<equiv> dataset \<notin> {''ucf'', ''hmdb''} \<or> split \<notin> {1, 2, 3}
                       \<or> mode \<notin> {''train'', ''test''} \<or> modality \<notin> {''rgb'', ''flow''}
                       \<or> (mode = ''train'' \<and> lmode \<noteq> ''clip'')
                       \<or> (lmode = ''clip'' \<and> cpv \<noteq> 1)
                       \<or> (lmode \<noteq> ''clip'' \<and> cpv \<le> 1)"
  shows "(invalid \<longrightarrow>
            video_dataset_init src path dataset split mode modality clip_len test_mode test_amt
              lmode cpv = Inl AssertionError)
         \<and> (\<not> invalid \<longrightarrow> init_validate dataset split mode modality lmode cpv = Inr ())
         \<and> (\<not> invalid
              \<and> read_text src (mapping_file dataset mode split) = Some content
              \<and> (\<forall>line \<in> set (butlast (split_on (CHR 0x0A) content)).
                    2 \<le> length (split_on CHR '' '' line)
                    \<and> to_int src (split_on CHR '' '' line ! 1) \<noteq> None)
              \<and> (test_mode \<and> 0 < test_amt \<longrightarrow> butlast (split_on (CHR 0x0A) content) \<noteq> [])
            \<longrightarrow> (\<exists>ds. video_dataset_init src path dataset split mode modality clip_len test_mode
                         test_amt lmode cpv = Inr ds
                     \<and> len ds = Inr (if test_mode then nat test_amt
                                      else length (butlast (split_on (CHR 0x0A) content)))
                     \<and> ds_modality ds = modality \<and> load_mode ds = lmode
                     \<and> ds_clips_per_video ds = cpv \<and> crop_depth ds = clip_len))"
proof -
  have inv: "invalid = (init_validate dataset split mode modality lmode cpv = Inl AssertionError)"
    unfolding invalid_def using init_validate_cases(1)[of dataset split mode modality lmode cpv] by simp
  have p1: "invalid \<longrightarrow>
            video_dataset_init src path dataset split mode modality clip_len test_mode test_amt
              lmode cpv = Inl AssertionError"
    using inv by (simp add: video_dataset_init_def)
  have p2: "\<not> invalid \<longrightarrow> init_validate dataset split mode modality lmode cpv = Inr ()"
    using inv init_validate_cases(2)[of dataset split mode modality lmode cpv] by auto
  have p3: "\<not> invalid
              \<and> read_text src (mapping_file dataset mode split) = Some content
              \<and> (\<forall>line \<in> set (butlast (split_on (CHR 0x0A) content)).
                    2 \<le> length (split_on CHR '' '' line)
                    \<and> to_int src (split_on CHR '' '' line ! 1) \<noteq> None)
              \<and> (test_mode \<and> 0 < test_amt \<longrightarrow> butlast (split_on (CHR 0x0A) content) \<noteq> [])
            \<longrightarrow> (\<exists>ds. video_dataset_init src path dataset split mode modality clip_len test_mode
                         test_amt lmode cpv = Inr ds
                     \<and> len ds = Inr (if test_mode then nat test_amt
                                      else length (butlast (split_on (CHR 0x0A) content)))
                     \<and> ds_modality ds = modality \<and> load_mode ds = lmode
                     \<and> ds_clips_per_video ds = cpv \<and> crop_depth ds = clip_len)"
  proof (intro impI, elim conjE)
    define ls where "ls = butlast (split_on (CHR 0x0A) content)"
    assume ni: "\<not> invalid"
      and rd: "read_text src (mapping_file dataset mode split) = Some content"
      and wf: "\<forall>line \<in> set (butlast (split_on (CHR 0x0A) content)).
                    2 \<le> length (split_on CHR '' '' line)
                    \<and> to_int src (split_on CHR '' '' line ! 1) \<noteq> None"
      and ne: "test_mode \<and> 0 < test_amt \<longrightarrow> butlast (split_on (CHR 0x0A) content) \<noteq> []"
    have val: "init_validate dataset split mode modality lmode cpv = Inr ()" using p2 ni by simp
    obtain rows where rows: "parse_lines (frame_dir_of path dataset modality) modality ls = Inr rows"
      "length rows = length ls" "map snd rows = map (\<lambda>line. split_on CHR '' '' line ! 1) ls"
      using parse_lines_ok[of ls] wf unfolding ls_def by blast
    have "\<forall>l \<in> set (map snd rows). to_int src l \<noteq> None"
      using wf rows(3) unfolding ls_def by auto
    then obtain labs where labs: "convert_labels src (map snd rows) = Inr labs"
      "length labs = length (map snd rows)"
      using convert_labels_ok by blast
    have leq: "length (map fst rows) = length labs" using labs(2) by simp
    show "\<exists>ds. video_dataset_init src path dataset split mode modality clip_len test_mode
                         test_amt lmode cpv = Inr ds
                     \<and> len ds = Inr (if test_mode then nat test_amt
                                      else length (butlast (split_on (CHR 0x0A) content)))
                     \<and> ds_modality ds = modality \<and> load_mode ds = lmode
                     \<and> ds_clips_per_video ds = cpv \<and> crop_depth ds = clip_len"
    proof (cases test_mode)
      case True
      have ne': "0 < test_amt \<longrightarrow> ls \<noteq> []" using ne True by (simp add: ls_def)
      have "length labs = length ls" using labs(2) rows(2) by simp
      then have "0 < test_amt \<longrightarrow> labs \<noteq> []" using ne' by auto
      then obtain chosen where ch: "subsample src test_amt (map fst rows) labs = Inr chosen"
        "length (fst chosen) = nat test_amt" "length (snd chosen) = nat test_amt"
        using subsample_ok[OF leq] by blast
      show ?thesis using True val rd rows(1) labs(1) ch unfolding ls_def
        by (simp add: video_dataset_init_def len_def)
    next
      case False
      show ?thesis using False val rd rows(1,2) labs unfolding ls_def
        by (simp add: video_dataset_init_def len_def)
    qed
  qed
  show ?thesis using p1 p2 p3 by blast
qed

text \<open>
  C8, as stated, fails: under a valid combination the assertions pass, but construction
  raises when the mapping file cannot be opened.
\<close>

theorem construction_missing_mapping_file:
  "init_validate ''ucf'' 1 ''test'' ''rgb'' ''video'' 10 = Inr ()
   \<and> video_dataset_init \<lparr>read_text = (\<lambda>p. None), to_int = (\<lambda>s. None), draw = (\<lambda>k. 0)\<rparr>
        ''data'' ''ucf'' 1 ''test'' ''rgb'' 16 True 8 ''video'' 10 = Inl FileNotFoundError"
  by (simp add: video_dataset_init_def init_validate_def)

text \<open>
  A mapping file of one line: train mode with the load mode \<open>video\<close> is refused, and the
  valid test configuration gives a provider of one sample.
\<close>

theorem construction_fails_fast_witness:
  "video_dataset_init demo_source ''data'' ''ucf'' 1 ''train'' ''rgb'' 16 False 8 ''video'' 10
     = Inl AssertionError
   \<and> (\<exists>ds. video_dataset_init demo_source ''data'' ''ucf'' 1 ''test'' ''rgb'' 16 False 8 ''video'' 10
             = Inr ds \<and> len ds = Inr 1 \<and> ds_modality ds = ''rgb'')"
proof -
  have c: "split_on (CHR 0x0A) (''v_Foo_g01_c01.avi 7'' @ [CHR 0x0A]) = [''v_Foo_g01_c01.avi 7'', []]"
    by simp
  have l: "split_on CHR '' '' ''v_Foo_g01_c01.avi 7'' = [''v_Foo_g01_c01.avi'', ''7'']" by simp
  have rd: "read_text demo_source (mapping_file ''ucf'' ''test'' 1)
              = Some (''v_Foo_g01_c01.avi 7'' @ [CHR 0x0A])"
    by (simp add: demo_source_def mapping_file_def path_join_def dataset_name_def str_of_split_def)
  have ti: "to_int demo_source ''7'' = Some 7" by (simp add: demo_source_def)
  show ?thesis
    using construction_fails_fast[where src = demo_source and path = "''data''" and dataset = "''ucf''"
            and split = 1 and mode = "''train''" and modality = "''rgb''" and clip_len = 16
            and test_mode = False and test_amt = 8 and lmode = "''video''" and cpv = 10]
          construction_fails_fast[where src = demo_source and path = "''data''" and dataset = "''ucf''"
            and split = 1 and mode = "''test''" and modality = "''rgb''" and clip_len = 16
            and test_mode = False and test_amt = 8 and lmode = "''video''" and cpv = 10
            and content = "''v_Foo_g01_c01.avi 7'' @ [CHR 0x0A]"]
          rd
    by (auto simp add: c l ti)
qed

end
